theory Spec2Isabelle
  imports Complex_Main
begin

section \<open>The web scraper: exceptions, environment and world\<close>

text \<open>
  The development embeds \<^verbatim>\<open>src/web-scraper/scraper.py\<close>. Python exceptions are values
  of the datatype \<open>exn\<close>; a function that may raise returns \<open>exn + 'a\<close> with \<open>Inl\<close> for
  the exception. \<open>RuntimeError url retries cause\<close> is the error of line 62: its message
  holds the url and the value of \<open>retries\<close>, and \<open>cause\<close> is its \<^verbatim>\<open>__cause__\<close>
  (\<^verbatim>\<open>raise ... from last_exc\<close>).
\<close>

datatype exn =
    HTTPError int
  | RequestException string
  | OSError string
  | ValueError string
  | KeyError string
  | OperationalError string
  | IntegrityError string
  | RuntimeError string int "exn option"
  | KeyboardInterrupt

text \<open>
  \<^verbatim>\<open>except Exception\<close> catches every exception above but \<^verbatim>\<open>KeyboardInterrupt\<close>, which
  derives from \<^verbatim>\<open>BaseException\<close> only.
\<close>

fun is_Exception :: "exn \<Rightarrow> bool" where
  "is_Exception KeyboardInterrupt = False"
| "is_Exception _ = True"

text \<open>What \<^verbatim>\<open>session.get(url, timeout=TIMEOUT)\<close> does: a response with its status code
  and text, or an exception (connection failure, timeout, an interrupt).\<close>

datatype get_outcome = Response int string | Raises exn

text \<open>
  The parsed document (\<^verbatim>\<open>BeautifulSoup(html, "lxml")\<close>): text nodes, comments and tags;
  \<open>Tag name classes attrs contents\<close> keeps the value of the \<^verbatim>\<open>class\<close> attribute as the
  list of its class names and the other attributes as an association list.
\<close>

datatype node =
    NavigableString string
  | Comment string
  | Tag string "string list" "(string \<times> string) list" "node list"

text \<open>
  The destination of the CSV sink: absent, a file holding lines, or a path that
  \<^verbatim>\<open>open(path, "a")\<close> refuses (a directory, a missing permission). A line remembers
  whether \<^verbatim>\<open>writeheader\<close> or \<^verbatim>\<open>writerows\<close> wrote it; the file has size zero exactly when
  it holds no line.
\<close>

datatype csv_line = HeaderLine "string list" | DataLine "string list"

datatype csv_file = Absent | Content "csv_line list" | Unopenable

text \<open>
  The SQLite store at a path: no file yet, a database (its tables by name), or a path
  that SQLite cannot open as a database.
\<close>

datatype cell = Null | IntV int | TextV string

record column =
  col_name :: string
  col_type :: string
  primary_key :: bool
  autoincrement :: bool
  not_null :: bool

record table =
  columns :: "column list"
  table_rows :: "cell list list"
  last_rowid :: int

datatype store = NoFile | Database "(string \<times> table) list" | NotADatabase

text \<open>
  The environment is what the program does not control: the outcome of the \<open>n\<close>-th GET
  of the run (counted from 0) at a url, the \<open>n\<close>-th value of \<^verbatim>\<open>random.random()\<close>, whether
  the \<open>n\<close>-th \<^verbatim>\<open>time.sleep\<close> is interrupted by the user, the lxml parser and
  \<^verbatim>\<open>urllib.parse.urljoin\<close>, which raises \<^verbatim>\<open>ValueError\<close> for a reference it cannot
  split (\<^verbatim>\<open>//[\<close>, an unclosed IPv6 host, is one). Durations are real numbers (the source
  computes them in floating point).
\<close>

record env =
  session_get :: "nat \<Rightarrow> string \<Rightarrow> get_outcome"
  rand :: "nat \<Rightarrow> real"
  sleep_interrupt :: "nat \<Rightarrow> bool"
  lxml :: "string \<Rightarrow> node list"
  urljoin :: "string \<Rightarrow> string \<Rightarrow> exn + string"

text \<open>
  The world is what the program changes or consumes: the urls requested so far, the
  number of random values drawn, the durations passed to \<^verbatim>\<open>time.sleep\<close>, and the two
  kinds of destination by path.
\<close>

record world =
  gets :: "string list"
  draws :: nat
  sleeps :: "real list"
  csv_files :: "string \<Rightarrow> csv_file"
  stores :: "string \<Rightarrow> store"

section \<open>The retrying fetcher (\<^verbatim>\<open>fetch_html\<close>, lines 49-62)\<close>

text \<open>\<^verbatim>\<open>random.uniform(a, b)\<close> is \<^verbatim>\<open>a + (b - a) * random()\<close>.\<close>

definition uniform :: "env \<Rightarrow> real \<Rightarrow> real \<Rightarrow> world \<Rightarrow> real \<times> world" where
  "uniform ev a b w = (a + (b - a) * rand ev (draws w), w\<lparr>draws := Suc (draws w)\<rparr>)"

text \<open>\<^verbatim>\<open>time.sleep(d)\<close> raises \<^verbatim>\<open>ValueError\<close> for a negative duration; otherwise it
  suspends, and an interrupt during the suspension raises \<^verbatim>\<open>KeyboardInterrupt\<close>.\<close>

definition time_sleep :: "env \<Rightarrow> real \<Rightarrow> world \<Rightarrow> (exn + unit) \<times> world" where
  "time_sleep ev d w =
     (if d < 0 then (Inl (ValueError ''sleep length must be non-negative''), w)
      else if sleep_interrupt ev (length (sleeps w))
        then (Inl KeyboardInterrupt, w\<lparr>sleeps := sleeps w @ [d]\<rparr>)
        else (Inr (), w\<lparr>sleeps := sleeps w @ [d]\<rparr>))"

text \<open>\<^verbatim>\<open>Response.raise_for_status()\<close> of requests raises \<^verbatim>\<open>HTTPError\<close> for a client
  error (400 to 499) or a server error (500 to 599), and for no other status.\<close>

definition raise_for_status :: "int \<Rightarrow> exn + unit" where
  "raise_for_status status =
     (if 400 \<le> status \<and> status < 500 then Inl (HTTPError status)
      else if 500 \<le> status \<and> status < 600 then Inl (HTTPError status)
      else Inr ())"

text \<open>
  The single attempt of lines 54-56 when it is the \<open>n\<close>-th GET of the run:
  \<^verbatim>\<open>session.get\<close>, \<^verbatim>\<open>raise_for_status\<close>, then \<^verbatim>\<open>resp.text\<close>.
\<close>

definition transport :: "env \<Rightarrow> nat \<Rightarrow> string \<Rightarrow> exn + string" where
  "transport ev n url =
     (case session_get ev n url of
        Raises e \<Rightarrow> Inl e
      | Response status text \<Rightarrow>
          (case raise_for_status status of
             Inl e \<Rightarrow> Inl e
           | Inr _ \<Rightarrow> Inr text))"

text \<open>The body of the \<^verbatim>\<open>try\<close>, on the world: the request is issued and counted.\<close>

definition try_get :: "env \<Rightarrow> string \<Rightarrow> world \<Rightarrow> (exn + string) \<times> world" where
  "try_get ev url w = (transport ev (length (gets w)) url, w\<lparr>gets := gets w @ [url]\<rparr>)"

text \<open>
  The \<^verbatim>\<open>for attempt in range(1, retries + 1)\<close> loop over the attempt numbers still to
  run, with \<^verbatim>\<open>last_exc\<close>. An exception that \<^verbatim>\<open>except Exception\<close> does not catch, and
  one raised inside the handler, leave the function as they are.
\<close>

fun fetch_attempts ::
  "env \<Rightarrow> string \<Rightarrow> int \<Rightarrow> real \<Rightarrow> int list \<Rightarrow> exn option \<Rightarrow> world \<Rightarrow> (exn + string) \<times> world"
where
  "fetch_attempts ev url retries backoff [] last_exc w =
     (Inl (RuntimeError url retries last_exc), w)"
| "fetch_attempts ev url retries backoff (attempt # rest) last_exc w =
     (case try_get ev url w of
        (Inr text, w1) \<Rightarrow> (Inr text, w1)
      | (Inl e, w1) \<Rightarrow>
          if is_Exception e then
            (case uniform ev 0 (1 / 5) w1 of
               (jitter, w2) \<Rightarrow>
                 (case time_sleep ev (backoff ^ nat attempt + jitter) w2 of
                    (Inl e', w3) \<Rightarrow> (Inl e', w3)
                  | (Inr _, w3) \<Rightarrow> fetch_attempts ev url retries backoff rest (Some e) w3))
          else (Inl e, w1))"

definition fetch_html ::
  "env \<Rightarrow> string \<Rightarrow> int \<Rightarrow> real \<Rightarrow> world \<Rightarrow> (exn + string) \<times> world"
where
  "fetch_html ev url retries backoff w = fetch_attempts ev url retries backoff [1..retries] None w"

section \<open>The page extractor (\<^verbatim>\<open>parse_quotes\<close>, lines 64-79)\<close>

text \<open>
  An element comes with its ancestors, nearest first: \<^verbatim>\<open>select\<close> looks for matches among
  the descendants of the tag it is called on, and a descendant combinator is matched
  against all the ancestors of the candidate, those above that tag too.
\<close>

type_synonym element = "node list \<times> node"

fun descendants :: "node list \<Rightarrow> node \<Rightarrow> element list" where
  "descendants anc (Tag n cs ats ks) =
     concat (map (\<lambda>k. (Tag n cs ats ks # anc, k) # descendants (Tag n cs ats ks # anc) k) ks)"
| "descendants anc (NavigableString s) = []"
| "descendants anc (Comment s) = []"

text \<open>The descendants of the \<^verbatim>\<open>BeautifulSoup\<close> object, in document order.\<close>

definition soup_descendants :: "node list \<Rightarrow> element list" where
  "soup_descendants doc = concat (map (\<lambda>k. ([], k) # descendants [] k) doc)"

text \<open>A compound selector: a tag name and, for \<^verbatim>\<open>name.cls\<close>, a class.\<close>

type_synonym compound = "string \<times> string option"

fun matches :: "compound \<Rightarrow> node \<Rightarrow> bool" where
  "matches (nm, None) (Tag n cs ats ks) = (n = nm)"
| "matches (nm, Some c) (Tag n cs ats ks) = (n = nm \<and> c \<in> set cs)"
| "matches sel (NavigableString s) = False"
| "matches sel (Comment s) = False"

text \<open>The compounds to the left of the last one, innermost first, against the ancestors.\<close>

fun match_chain :: "compound list \<Rightarrow> node list \<Rightarrow> bool" where
  "match_chain [] anc = True"
| "match_chain (c # cs) [] = False"
| "match_chain (c # cs) (a # anc) =
     ((matches c a \<and> match_chain cs anc) \<or> match_chain (c # cs) anc)"

text \<open>\<open>select_in outer c ds\<close>: the elements of \<open>ds\<close> that the selector
  \<^verbatim>\<open>o1 ... on c\<close> matches, where \<open>outer = [on, ..., o1]\<close>.\<close>

definition select_in :: "compound list \<Rightarrow> compound \<Rightarrow> element list \<Rightarrow> element list" where
  "select_in outer c ds = filter (\<lambda>(anc, el). matches c el \<and> match_chain outer anc) ds"

definition soup_select :: "compound list \<Rightarrow> compound \<Rightarrow> node list \<Rightarrow> element list" where
  "soup_select outer c doc = select_in outer c (soup_descendants doc)"

definition select :: "compound list \<Rightarrow> compound \<Rightarrow> element \<Rightarrow> element list" where
  "select outer c q = select_in outer c (descendants (fst q) (snd q))"

definition first_or_none :: "'a list \<Rightarrow> 'a option" where
  "first_or_none xs = (case xs of [] \<Rightarrow> None | x # _ \<Rightarrow> Some x)"

definition select_one :: "compound list \<Rightarrow> compound \<Rightarrow> element \<Rightarrow> element option" where
  "select_one outer c q = first_or_none (select outer c q)"

definition soup_select_one :: "compound list \<Rightarrow> compound \<Rightarrow> node list \<Rightarrow> element option" where
  "soup_select_one outer c doc = first_or_none (soup_select outer c doc)"

text \<open>\<^verbatim>\<open>str.strip()\<close>, on the whitespace among the first 256 code points.\<close>

definition is_space :: "char \<Rightarrow> bool" where
  "is_space c = (c \<in> set [CHR '' '', CHR 0x09, CHR 0x0A, CHR 0x0B, CHR 0x0C, CHR 0x0D,
                            CHR 0x1C, CHR 0x1D, CHR 0x1E, CHR 0x1F, CHR 0x85, CHR 0xA0])"

definition strip :: "string \<Rightarrow> string" where
  "strip s = rev (dropWhile is_space (rev (dropWhile is_space s)))"

text \<open>\<^verbatim>\<open>get_text(strip=True)\<close>: the text nodes below the tag, each stripped, the empty
  ones dropped, joined with nothing between them.\<close>

fun all_strings :: "node \<Rightarrow> string list" where
  "all_strings (NavigableString s) = [s]"
| "all_strings (Comment s) = []"
| "all_strings (Tag n cs ats ks) = concat (map all_strings ks)"

definition get_text :: "element \<Rightarrow> string" where
  "get_text el = concat (filter (\<lambda>s. s \<noteq> []) (map strip (all_strings (snd el))))"

fun join :: "string \<Rightarrow> string list \<Rightarrow> string" where
  "join sep [] = []"
| "join sep [x] = x"
| "join sep (x # y # ys) = x @ sep @ join sep (y # ys)"

text \<open>\<^verbatim>\<open>next_link.get("href")\<close>.\<close>

fun get_attr :: "element \<Rightarrow> string \<Rightarrow> string option" where
  "get_attr (anc, Tag n cs ats ks) k = map_of ats k"
| "get_attr (anc, NavigableString s) k = None"
| "get_attr (anc, Comment s) k = None"

text \<open>A record is a Python dict with string values: an association list, in the order
  the keys were inserted.\<close>

type_synonym item = "(string \<times> string) list"

text \<open>The dict built for one \<^verbatim>\<open>div.quote\<close> element (lines 68-75).\<close>

definition quote_item :: "element \<Rightarrow> item" where
  "quote_item q =
     (let text = select_one [] (''span'', Some ''text'') q;
          author = select_one [] (''small'', Some ''author'') q;
          tag_nodes = select [(''div'', Some ''tags'')] (''a'', Some ''tag'') q
      in [(''quote'', (case text of Some t \<Rightarrow> get_text t | None \<Rightarrow> [])),
          (''author'', (case author of Some a \<Rightarrow> get_text a | None \<Rightarrow> [])),
          (''tags'', (if tag_nodes \<noteq> [] then join '', '' (map get_text tag_nodes) else []))])"

definition parse_soup :: "node list \<Rightarrow> item list \<times> string option" where
  "parse_soup soup =
     (let items = map quote_item (soup_select [] (''div'', Some ''quote'') soup);
          next_link = soup_select_one [(''li'', Some ''next'')] (''a'', None) soup;
          next_href = (case next_link of Some l \<Rightarrow> get_attr l ''href'' | None \<Rightarrow> None)
      in (items, next_href))"

definition parse_quotes :: "env \<Rightarrow> string \<Rightarrow> item list \<times> string option" where
  "parse_quotes ev html = parse_soup (lxml ev html)"

section \<open>The CSV sink (\<^verbatim>\<open>save_to_csv\<close>, lines 81-100)\<close>

text \<open>\<^verbatim>\<open>_file_exists\<close>: the path exists and its size is positive. For a path that
  cannot be opened (a directory, say) it is taken to be true; \<^verbatim>\<open>open\<close> raises there before
  anything is written, whatever the value.\<close>

fun file_exists :: "csv_file \<Rightarrow> bool" where
  "file_exists Absent = False"
| "file_exists (Content ls) = (ls \<noteq> [])"
| "file_exists Unopenable = True"

text \<open>\<^verbatim>\<open>DictWriter._dict_to_list\<close>: a key outside the field names raises
  \<^verbatim>\<open>ValueError\<close>; a missing key gives the empty string.\<close>

definition dict_to_list :: "string list \<Rightarrow> item \<Rightarrow> exn + string list" where
  "dict_to_list fieldnames r =
     (if \<exists>k \<in> set (map fst r). k \<notin> set fieldnames
      then Inl (ValueError ''dict contains fields not in fieldnames'')
      else Inr (map (\<lambda>k. case map_of r k of Some v \<Rightarrow> v | None \<Rightarrow> []) fieldnames))"

text \<open>\<^verbatim>\<open>writerows\<close> writes row after row; the rows before one that raises stay written.\<close>

fun writerows :: "string list \<Rightarrow> item list \<Rightarrow> csv_line list \<Rightarrow> (exn + unit) \<times> csv_line list" where
  "writerows fieldnames [] ls = (Inr (), ls)"
| "writerows fieldnames (r # rs) ls =
     (case dict_to_list fieldnames r of
        Inl e \<Rightarrow> (Inl e, ls)
      | Inr cells \<Rightarrow> writerows fieldnames rs (ls @ [DataLine cells]))"

fun lines_of :: "csv_file \<Rightarrow> csv_line list" where
  "lines_of (Content ls) = ls"
| "lines_of Absent = []"
| "lines_of Unopenable = []"

definition save_to_csv :: "item list \<Rightarrow> string \<Rightarrow> world \<Rightarrow> (exn + unit) \<times> world" where
  "save_to_csv rows csv_path w =
     (case rows of
        [] \<Rightarrow> (Inr (), w)
      | r0 # _ \<Rightarrow>
          (let fieldnames = map fst r0;
               write_header = \<not> file_exists (csv_files w csv_path)
           in case csv_files w csv_path of
                Unopenable \<Rightarrow> (Inl (OSError csv_path), w)
              | f \<Rightarrow>
                  (case writerows fieldnames rows
                          (if write_header then lines_of f @ [HeaderLine fieldnames] else lines_of f) of
                     (r, ls) \<Rightarrow> (r, w\<lparr>csv_files := (csv_files w)(csv_path := Content ls)\<rparr>))))"

section \<open>The SQLite sink (\<^verbatim>\<open>init_sqlite\<close>, \<^verbatim>\<open>save_to_sqlite\<close>, lines 102-131)\<close>

text \<open>
  The two SQL statements of the program, as data: \<^verbatim>\<open>CREATE TABLE IF NOT EXISTS name (columns)\<close>
  and \<^verbatim>\<open>INSERT INTO name (column names) VALUES (?, ...)\<close> with its parameters.
\<close>

datatype statement =
    CreateTableIfNotExists string "column list"
  | InsertInto string "string list" "cell list"

type_synonym tables = "(string \<times> table) list"

text \<open>\<^verbatim>\<open>sqlite3.connect\<close>: a path with no file opens as an empty database.\<close>

fun connect :: "store \<Rightarrow> exn + tables" where
  "connect NoFile = Inr []"
| "connect (Database ts) = Inr ts"
| "connect NotADatabase = Inl (OperationalError ''unable to open database file'')"

text \<open>
  One inserted row: a named column takes its parameter, an \<^verbatim>\<open>INTEGER PRIMARY KEY\<close> column
  left out takes the next row id, any other column left out takes \<^verbatim>\<open>NULL\<close>; an unknown
  column name and a \<^verbatim>\<open>NULL\<close> in a \<^verbatim>\<open>NOT NULL\<close> column are errors.
\<close>

definition insert_row :: "table \<Rightarrow> (string \<times> cell) list \<Rightarrow> exn + table" where
  "insert_row t named =
     (if \<exists>k \<in> set (map fst named). k \<notin> set (map col_name (columns t))
      then Inl (OperationalError ''table has no such column'')
      else
        (let rowid = last_rowid t + 1;
             row = map (\<lambda>c. case map_of named (col_name c) of
                               Some v \<Rightarrow> v
                             | None \<Rightarrow> if primary_key c \<and> col_type c = ''INTEGER''
                                        then IntV rowid else Null) (columns t)
         in if \<exists>cv \<in> set (zip (columns t) row). not_null (fst cv) \<and> snd cv = Null
            then Inl (IntegrityError ''NOT NULL constraint failed'')
            else Inr (t\<lparr>table_rows := table_rows t @ [row], last_rowid := rowid\<rparr>)))"

fun execute :: "statement \<Rightarrow> tables \<Rightarrow> exn + tables" where
  "execute (CreateTableIfNotExists name cols) ts =
     (case map_of ts name of
        Some t \<Rightarrow> Inr ts
      | None \<Rightarrow> Inr (ts @ [(name, \<lparr>columns = cols, table_rows = [], last_rowid = 0\<rparr>)]))"
| "execute (InsertInto name cols vals) ts =
     (case map_of ts name of
        None \<Rightarrow> Inl (OperationalError ''no such table'')
      | Some t \<Rightarrow>
          (case insert_row t (zip cols vals) of
             Inl e \<Rightarrow> Inl e
           | Inr t' \<Rightarrow> Inr (map (\<lambda>nt. if fst nt = name then (name, t') else nt) ts)))"

fun executemany :: "(cell list \<Rightarrow> statement) \<Rightarrow> cell list list \<Rightarrow> tables \<Rightarrow> exn + tables" where
  "executemany stmt [] ts = Inr ts"
| "executemany stmt (p # ps) ts =
     (case execute (stmt p) ts of
        Inl e \<Rightarrow> Inl e
      | Inr ts' \<Rightarrow> executemany stmt ps ts')"

text \<open>The columns of the \<^verbatim>\<open>CREATE TABLE\<close> statement of lines 107-112.\<close>

definition quotes_columns :: "column list" where
  "quotes_columns =
     [\<lparr>col_name = ''id'', col_type = ''INTEGER'', primary_key = True, autoincrement = True,
       not_null = False\<rparr>,
      \<lparr>col_name = ''quote'', col_type = ''TEXT'', primary_key = False, autoincrement = False,
       not_null = True\<rparr>,
      \<lparr>col_name = ''author'', col_type = ''TEXT'', primary_key = False, autoincrement = False,
       not_null = False\<rparr>,
      \<lparr>col_name = ''tags'', col_type = ''TEXT'', primary_key = False, autoincrement = False,
       not_null = False\<rparr>]"

definition init_sqlite :: "string \<Rightarrow> world \<Rightarrow> (exn + unit) \<times> world" where
  "init_sqlite db_path w =
     (case connect (stores w db_path) of
        Inl e \<Rightarrow> (Inl e, w)
      | Inr ts \<Rightarrow>
          (case execute (CreateTableIfNotExists ''quotes'' quotes_columns) ts of
             Inl e \<Rightarrow> (Inl e, w)
           | Inr ts' \<Rightarrow> (Inr (), w\<lparr>stores := (stores w)(db_path := Database ts')\<rparr>)))"

text \<open>\<^verbatim>\<open>r[k]\<close> raises \<^verbatim>\<open>KeyError\<close> for a missing key; the list comprehension of line 127
  stops at the first row that raises.\<close>

definition getitem :: "item \<Rightarrow> string \<Rightarrow> exn + string" where
  "getitem r k = (case map_of r k of None \<Rightarrow> Inl (KeyError k) | Some v \<Rightarrow> Inr v)"

definition row_params :: "item \<Rightarrow> exn + cell list" where
  "row_params r =
     (case getitem r ''quote'' of
        Inl e \<Rightarrow> Inl e
      | Inr q \<Rightarrow>
          (case getitem r ''author'' of
             Inl e \<Rightarrow> Inl e
           | Inr a \<Rightarrow>
               (case getitem r ''tags'' of
                  Inl e \<Rightarrow> Inl e
                | Inr t \<Rightarrow> Inr [TextV q, TextV a, TextV t])))"

fun all_params :: "item list \<Rightarrow> exn + cell list list" where
  "all_params [] = Inr []"
| "all_params (r # rs) =
     (case row_params r of
        Inl e \<Rightarrow> Inl e
      | Inr p \<Rightarrow> (case all_params rs of Inl e \<Rightarrow> Inl e | Inr ps \<Rightarrow> Inr (p # ps)))"

text \<open>Nothing is committed when a step raises: the store is then as it was.\<close>

definition save_to_sqlite :: "item list \<Rightarrow> string \<Rightarrow> world \<Rightarrow> (exn + unit) \<times> world" where
  "save_to_sqlite rows db_path w =
     (case rows of
        [] \<Rightarrow> (Inr (), w)
      | r0 # _ \<Rightarrow>
          (case connect (stores w db_path) of
             Inl e \<Rightarrow> (Inl e, w)
           | Inr ts \<Rightarrow>
               (case all_params rows of
                  Inl e \<Rightarrow> (Inl e, w)
                | Inr ps \<Rightarrow>
                    (case executemany (InsertInto ''quotes'' [''quote'', ''author'', ''tags'']) ps ts of
                       Inl e \<Rightarrow> (Inl e, w)
                     | Inr ts' \<Rightarrow> (Inr (), w\<lparr>stores := (stores w)(db_path := Database ts')\<rparr>)))))"

section \<open>The pagination controller (\<^verbatim>\<open>scrape\<close>, lines 133-173) and \<^verbatim>\<open>main\<close>\<close>

definition BASE_URL :: string where
  "BASE_URL = ''https://quotes.toscrape.com''"

text \<open>The branch that left the loop: line 162 or line 165.\<close>

datatype stop = ReachedLimit | NoNextLink

text \<open>\<^verbatim>\<open>if path: sink(items, path)\<close>: \<^verbatim>\<open>None\<close> and the empty string are false.\<close>

definition if_path ::
  "string option \<Rightarrow> (string \<Rightarrow> world \<Rightarrow> (exn + unit) \<times> world) \<Rightarrow> world \<Rightarrow> (exn + unit) \<times> world"
where
  "if_path p f w = (case p of None \<Rightarrow> (Inr (), w) | Some s \<Rightarrow> if s = [] then (Inr (), w) else f s w)"

text \<open>\<^verbatim>\<open>limit_pages and page >= limit_pages\<close>: \<^verbatim>\<open>None\<close> and 0 are false.\<close>

definition limit_reached :: "int option \<Rightarrow> int \<Rightarrow> bool" where
  "limit_reached limit_pages page =
     (case limit_pages of None \<Rightarrow> False | Some l \<Rightarrow> l \<noteq> 0 \<and> page \<ge> l)"

text \<open>
  The \<^verbatim>\<open>while True\<close> loop, one unit of fuel for each pass; \<open>None\<close> is a run that the fuel
  does not finish. The result is what the run ended with (an exception, or the branch
  that stopped it), the value of \<^verbatim>\<open>page\<close> and the world. \<^verbatim>\<open>fetch_html\<close> is called with
  its defaults, \<^verbatim>\<open>retries = 3\<close> and \<^verbatim>\<open>backoff = 1.5\<close>.
\<close>

fun scrape_loop ::
  "nat \<Rightarrow> env \<Rightarrow> int option \<Rightarrow> real \<Rightarrow> string option \<Rightarrow> string option \<Rightarrow> string \<Rightarrow> int \<Rightarrow> world
     \<Rightarrow> ((exn + stop) \<times> int \<times> world) option"
where
  "scrape_loop 0 ev limit_pages delay csv_path sqlite_path url page0 w = None"
| "scrape_loop (Suc fuel) ev limit_pages delay csv_path sqlite_path url page0 w =
     (let page = page0 + 1 in
      case fetch_html ev url 3 (3 / 2) w of
        (Inl e, w1) \<Rightarrow> Some (Inl e, page, w1)
      | (Inr html, w1) \<Rightarrow>
          (case parse_quotes ev html of
             (items, next_href) \<Rightarrow>
               (case if_path csv_path (save_to_csv items) w1 of
                  (Inl e, w2) \<Rightarrow> Some (Inl e, page, w2)
                | (Inr _, w2) \<Rightarrow>
                    (case if_path sqlite_path (save_to_sqlite items) w2 of
                       (Inl e, w3) \<Rightarrow> Some (Inl e, page, w3)
                     | (Inr _, w3) \<Rightarrow>
                         if limit_reached limit_pages page then Some (Inr ReachedLimit, page, w3)
                         else
                           (case next_href of
                              None \<Rightarrow> Some (Inr NoNextLink, page, w3)
                            | Some href \<Rightarrow>
                                if href = [] then Some (Inr NoNextLink, page, w3)
                                else
                                  (case uniform ev 0 (if delay \<noteq> 0 then delay * (15 / 100) else 0) w3 of
                                     (jitter, w4) \<Rightarrow>
                                       (let sleep_for = max 0 (delay + jitter) in
                                        case (if sleep_for \<noteq> 0 then time_sleep ev sleep_for w4
                                              else (Inr (), w4)) of
                                          (Inl e, w5) \<Rightarrow> Some (Inl e, page, w5)
                                        | (Inr _, w5) \<Rightarrow>
                                            (case urljoin ev url href of
                                               Inl e \<Rightarrow> Some (Inl e, page, w5)
                                             | Inr url' \<Rightarrow>
                                                 scrape_loop fuel ev limit_pages delay csv_path
                                                   sqlite_path url' page w5))))))))"

text \<open>\<^verbatim>\<open>scrape\<close>; the user agent and the verbosity reach only the request headers and
  the log, which the model leaves out.\<close>

definition scrape ::
  "nat \<Rightarrow> env \<Rightarrow> int option \<Rightarrow> real \<Rightarrow> string option \<Rightarrow> string option \<Rightarrow> world
     \<Rightarrow> ((exn + stop) \<times> int \<times> world) option"
where
  "scrape fuel ev limit_pages delay csv_path sqlite_path w =
     (case if_path sqlite_path init_sqlite w of
        (Inl e, w1) \<Rightarrow> Some (Inl e, 0, w1)
      | (Inr _, w1) \<Rightarrow> scrape_loop fuel ev limit_pages delay csv_path sqlite_path BASE_URL 0 w1)"

text \<open>The parsed command line, and \<^verbatim>\<open>main\<close> (lines 185-205) after \<^verbatim>\<open>parse_args\<close>: the
  exit status.\<close>

record args =
  arg_csv_path :: string
  arg_sqlite_path :: string
  arg_limit_pages :: int
  arg_delay :: real

definition exit_status :: "exn + stop \<Rightarrow> int" where
  "exit_status r =
     (case r of
        Inr _ \<Rightarrow> 0
      | Inl e \<Rightarrow> if e = KeyboardInterrupt then 2 else 1)"

definition main :: "nat \<Rightarrow> env \<Rightarrow> args \<Rightarrow> world \<Rightarrow> (int \<times> world) option" where
  "main fuel ev a w =
     (let csv_path = (if strip (arg_csv_path a) \<noteq> [] then Some (arg_csv_path a) else None);
          sqlite_path = (if strip (arg_sqlite_path a) \<noteq> [] then Some (strip (arg_sqlite_path a)) else None);
          limit_pages = (if arg_limit_pages a > 0 then Some (arg_limit_pages a) else None)
      in case scrape fuel ev limit_pages (arg_delay a) csv_path sqlite_path w of
           None \<Rightarrow> None
         | Some (r, page, w') \<Rightarrow> Some (exit_status r, w'))"

section \<open>Fixtures\<close>

text \<open>A world with nothing requested, nothing slept and no destination present.\<close>

definition empty_world :: world where
  "empty_world =
     \<lparr>gets = [], draws = 0, sleeps = [], csv_files = (\<lambda>p. Absent), stores = (\<lambda>p. NoFile)\<rparr>"

text \<open>
  An environment from a network and a parser: every random value is one half, no sleep
  is interrupted, and a next link is an absolute path on the site, but for the
  reference \<^verbatim>\<open>//[\<close>, on which \<^verbatim>\<open>urljoin\<close> raises.
\<close>

definition fixture_env :: "(nat \<Rightarrow> string \<Rightarrow> get_outcome) \<Rightarrow> (string \<Rightarrow> node list) \<Rightarrow> env" where
  "fixture_env net parser =
     \<lparr>session_get = net, rand = (\<lambda>n. 1 / 2), sleep_interrupt = (\<lambda>n. False),
      lxml = parser,
      urljoin = (\<lambda>base href. if href = ''//['' then Inl (ValueError ''Invalid IPv6 URL'')
                                else Inr (BASE_URL @ href))\<rparr>"

text \<open>The first two requests time out and the third is answered.\<close>

definition flaky_env :: env where
  "flaky_env =
     fixture_env (\<lambda>n u. if n < 2 then Raises (RequestException ''timeout'') else Response 200 ''page'')
       (\<lambda>h. [])"

text \<open>Every request is answered with status 503.\<close>

definition down_env :: env where
  "down_env = fixture_env (\<lambda>n u. Response 503 ''unavailable'') (\<lambda>h. [])"

text \<open>Every request is answered with status 304 and a body.\<close>

definition not_modified_env :: env where
  "not_modified_env = fixture_env (\<lambda>n u. Response 304 ''cached'') (\<lambda>h. [])"

section \<open>Notions the properties are stated with\<close>

text \<open>The lines of the file at a path, and how many of them \<^verbatim>\<open>writeheader\<close> wrote.\<close>

definition csv_lines :: "world \<Rightarrow> string \<Rightarrow> csv_line list" where
  "csv_lines w p = lines_of (csv_files w p)"







text \<open>The tables of a store that \<^verbatim>\<open>init_sqlite\<close> has just created, and a world whose
  store \<^verbatim>\<open>data.db\<close> already holds the table with one row.\<close>

definition fresh_tables :: tables where
  "fresh_tables = [(''quotes'', \<lparr>columns = quotes_columns, table_rows = [], last_rowid = 0\<rparr>)]"

definition stored_tables :: tables where
  "stored_tables =
     [(''quotes'', \<lparr>columns = quotes_columns,
                    table_rows = [[IntV 1, TextV ''To be'', TextV ''W. S.'', TextV ''life'']],
                    last_rowid = 1\<rparr>)]"

definition stored_world :: world where
  "stored_world =
     empty_world\<lparr>stores := (\<lambda>p. if p = ''data.db'' then Database stored_tables else NoFile)\<rparr>"

text \<open>
  Documents: a quote with text, author and two tags; a quote with its text only; the
  pager's next link; a page with both quotes and a next link; a last page; a page
  whose next link has an empty \<^verbatim>\<open>href\<close>; a page whose next link is \<^verbatim>\<open>//[\<close>; a page
  with no quote and no pager.
\<close>

definition full_quote :: node where
  "full_quote =
     Tag ''div'' [''quote''] []
       [Tag ''span'' [''text''] [] [NavigableString '' To be ''],
        Tag ''span'' [] [] [NavigableString ''by '',
                            Tag ''small'' [''author''] [] [NavigableString ''W. S.'']],
        Tag ''div'' [''tags''] []
          [NavigableString '' Tags: '',
           Tag ''a'' [''tag''] [(''href'', ''/tag/life/'')] [NavigableString ''life''],
           Tag ''a'' [''tag''] [(''href'', ''/tag/stage/'')] [NavigableString ''stage'']]]"

definition bare_quote :: node where
  "bare_quote = Tag ''div'' [''quote''] [] [Tag ''span'' [''text''] [] [NavigableString ''I think'']]"

definition next_li :: "string \<Rightarrow> node" where
  "next_li href =
     Tag ''li'' [''next''] [] [Tag ''a'' [] [(''href'', href)] [NavigableString ''Next'']]"

definition first_page :: "node list" where
  "first_page =
     [Tag ''html'' [] []
        [Tag ''body'' [] []
           [full_quote, bare_quote, Tag ''ul'' [''pager''] [] [next_li ''/page/2/'']]]]"

definition last_page :: "node list" where
  "last_page = [Tag ''html'' [] [] [Tag ''body'' [] [] [bare_quote]]]"

definition self_link_page :: "node list" where
  "self_link_page =
     [Tag ''html'' [] []
        [Tag ''body'' [] [] [full_quote, Tag ''ul'' [''pager''] [] [next_li []]]]]"

definition bad_link_page :: "node list" where
  "bad_link_page =
     [Tag ''html'' [] []
        [Tag ''body'' [] [] [full_quote, Tag ''ul'' [''pager''] [] [next_li ''//['']]]]"

definition blank_page :: "node list" where
  "blank_page = [Tag ''html'' [] [] [Tag ''body'' [] [] [NavigableString ''nothing here'']]]"

text \<open>The parser of the fixtures: a body is the name of its document.\<close>

definition fixture_parser :: "string \<Rightarrow> node list" where
  "fixture_parser h =
     (if h = ''first'' then first_page
      else if h = ''last'' then last_page
      else if h = ''self'' then self_link_page
      else if h = ''bad'' then bad_link_page
      else blank_page)"

text \<open>Sites: two pages, the first linking to the second; a site
  where every url answers with a page that has a next link; a site whose first page
  links to itself with an empty \<^verbatim>\<open>href\<close>; a site whose pages link to \<^verbatim>\<open>//[\<close>; the two-page
  site when the first request of the run times out.\<close>

definition two_page_env :: env where
  "two_page_env =
     fixture_env (\<lambda>n u. Response 200 (if u = BASE_URL then ''first'' else ''last'')) fixture_parser"

definition endless_env :: env where
  "endless_env = fixture_env (\<lambda>n u. Response 200 ''first'') fixture_parser"

definition self_link_env :: env where
  "self_link_env = fixture_env (\<lambda>n u. Response 200 ''self'') fixture_parser"

definition bad_link_env :: env where
  "bad_link_env = fixture_env (\<lambda>n u. Response 200 ''bad'') fixture_parser"

definition hiccup_env :: env where
  "hiccup_env =
     fixture_env (\<lambda>n u. if n = 0 then Raises (RequestException ''timeout'')
                         else Response 200 (if u = BASE_URL then ''first'' else ''last''))
       fixture_parser"

text \<open>
  The page chain of a site whose url \<open>u\<close> answers with the body \<open>site u\<close>: page \<open>0\<close> is
  at \<^verbatim>\<open>BASE_URL\<close>, and the next page is where \<^verbatim>\<open>urljoin\<close> takes the next reference of the
  page before. \<open>next_of\<close> is the next reference of page \<open>k\<close> and \<open>page_items\<close> its
  records; \<open>has_next\<close> holds of a reference that is neither \<^verbatim>\<open>None\<close> nor empty, and
  \<open>resolves\<close> holds of a page whose next reference \<^verbatim>\<open>urljoin\<close> accepts.
\<close>

fun nth_url :: "env \<Rightarrow> (string \<Rightarrow> string) \<Rightarrow> nat \<Rightarrow> string" where
  "nth_url ev site 0 = BASE_URL"
| "nth_url ev site (Suc k) =
     (case snd (parse_quotes ev (site (nth_url ev site k))) of
        Some href \<Rightarrow>
          (case urljoin ev (nth_url ev site k) href of
             Inr url' \<Rightarrow> url'
           | Inl e \<Rightarrow> nth_url ev site k)
      | None \<Rightarrow> nth_url ev site k)"

definition next_of :: "env \<Rightarrow> (string \<Rightarrow> string) \<Rightarrow> nat \<Rightarrow> string option" where
  "next_of ev site k = snd (parse_quotes ev (site (nth_url ev site k)))"

definition page_items :: "env \<Rightarrow> (string \<Rightarrow> string) \<Rightarrow> nat \<Rightarrow> item list" where
  "page_items ev site k = fst (parse_quotes ev (site (nth_url ev site k)))"

fun has_next :: "string option \<Rightarrow> bool" where
  "has_next None = False"
| "has_next (Some href) = (href \<noteq> [])"

definition resolves :: "env \<Rightarrow> (string \<Rightarrow> string) \<Rightarrow> nat \<Rightarrow> bool" where
  "resolves ev site k =
     (case next_of ev site k of
        None \<Rightarrow> True
      | Some href \<Rightarrow> \<not> isl (urljoin ev (nth_url ev site k) href))"

text \<open>
  What the sinks do with the batch of one page (lines 155-158: \<^verbatim>\<open>save_to_csv\<close> if a CSV
  path is configured, then \<^verbatim>\<open>save_to_sqlite\<close> if a SQLite path is), and with the batches
  of a sequence of pages, one page after the other.
\<close>

definition persist_page :: "string option \<Rightarrow> string option \<Rightarrow> item list \<Rightarrow> world \<Rightarrow> world" where
  "persist_page csv_path sqlite_path items w =
     snd (if_path sqlite_path (save_to_sqlite items) (snd (if_path csv_path (save_to_csv items) w)))"

fun persist_pages :: "string option \<Rightarrow> string option \<Rightarrow> item list list \<Rightarrow> world \<Rightarrow> world" where
  "persist_pages csv_path sqlite_path [] w = w"
| "persist_pages csv_path sqlite_path (items # bs) w =
     persist_pages csv_path sqlite_path bs (persist_page csv_path sqlite_path items w)"

text \<open>The requests of a run of fetches: \<open>a\<close> attempts at the url of page \<open>j\<close>, for each
  pair \<open>(a, j)\<close> in turn.\<close>

definition requests_of :: "env \<Rightarrow> (string \<Rightarrow> string) \<Rightarrow> (nat \<times> nat) list \<Rightarrow> string list" where
  "requests_of ev site ajs = concat (map (\<lambda>aj. replicate (fst aj) (nth_url ev site (snd aj))) ajs)"

text \<open>
  Destinations that accept the writes of a run: the CSV path, when one is configured,
  can be opened; the SQLite path, when one is configured, is a store that can be opened
  and whose table \<^verbatim>\<open>quotes\<close>, if it has one, has the columns of \<^verbatim>\<open>init_sqlite\<close>.
\<close>

definition csv_ready :: "string option \<Rightarrow> world \<Rightarrow> bool" where
  "csv_ready csv_path w =
     (case csv_path of None \<Rightarrow> True | Some p \<Rightarrow> p = [] \<or> csv_files w p \<noteq> Unopenable)"

definition sqlite_ready :: "string option \<Rightarrow> world \<Rightarrow> bool" where
  "sqlite_ready sqlite_path w =
     (case sqlite_path of
        None \<Rightarrow> True
      | Some d \<Rightarrow>
          d = [] \<or>
          (case connect (stores w d) of
             Inl e \<Rightarrow> False
           | Inr ts \<Rightarrow> (case map_of ts ''quotes'' of
                          None \<Rightarrow> True
                        | Some t \<Rightarrow> columns t = quotes_columns)))"

text \<open>A world whose path \<^verbatim>\<open>data.csv\<close> cannot be opened for writing, and one whose path
  \<^verbatim>\<open>data.db\<close> is not a database.\<close>

definition locked_world :: world where
  "locked_world = empty_world\<lparr>csv_files := (\<lambda>p. if p = ''data.csv'' then Unopenable else Absent)\<rparr>"

definition broken_store_world :: world where
  "broken_store_world =
     empty_world\<lparr>stores := (\<lambda>p. if p = ''data.db'' then NotADatabase else NoFile)\<rparr>"

text \<open>The store of a configured SQLite path after \<^verbatim>\<open>init_sqlite\<close>: it has the table
  \<^verbatim>\<open>quotes\<close> with the columns of the statement.\<close>

definition sqlite_inited :: "string option \<Rightarrow> world \<Rightarrow> bool" where
  "sqlite_inited sqlite_path w =
     (case sqlite_path of
        None \<Rightarrow> True
      | Some d \<Rightarrow>
          d = [] \<or>
          (case stores w d of
             Database ts \<Rightarrow> (case map_of ts ''quotes'' of
                               None \<Rightarrow> False
                             | Some t \<Rightarrow> columns t = quotes_columns)
           | NoFile \<Rightarrow> False
           | NotADatabase \<Rightarrow> False))"

text \<open>The bodies that the fixture sites answer with, by url.\<close>

definition endless_site :: "string \<Rightarrow> string" where
  "endless_site u = ''first''"

definition two_page_site :: "string \<Rightarrow> string" where
  "two_page_site u = (if u = BASE_URL then ''first'' else ''last'')"

text \<open>The store at a path.\<close>

definition store_at :: "string \<Rightarrow> world \<Rightarrow> store" where
  "store_at p w = stores w p"

text \<open>A site on which the user interrupts the first request, and the command lines
  \<^verbatim>\<open>--limit-pages 3\<close> and no option at all (the CSV path defaults to \<^verbatim>\<open>data.csv\<close>).\<close>

definition interrupted_env :: env where
  "interrupted_env = fixture_env (\<lambda>n u. Raises KeyboardInterrupt) fixture_parser"

definition limit_args :: args where
  "limit_args = \<lparr>arg_csv_path = ''data.csv'', arg_sqlite_path = [], arg_limit_pages = 3, arg_delay = 1\<rparr>"

definition default_args :: args where
  "default_args = \<lparr>arg_csv_path = ''data.csv'', arg_sqlite_path = [], arg_limit_pages = 0, arg_delay = 1\<rparr>"

text \<open>A world whose store \<^verbatim>\<open>data.db\<close> already has a table \<^verbatim>\<open>quotes\<close> of another shape.\<close>

definition foreign_tables :: tables where
  "foreign_tables =
     [(''quotes'', \<lparr>columns = [\<lparr>col_name = ''body'', col_type = ''TEXT'', primary_key = False,
                                  autoincrement = False, not_null = False\<rparr>],
                    table_rows = [], last_rowid = 0\<rparr>)]"

definition foreign_store_world :: world where
  "foreign_store_world =
     empty_world\<lparr>stores := (\<lambda>p. if p = ''data.db'' then Database foreign_tables else NoFile)\<rparr>"

section \<open>Properties of the retrying fetcher\<close>

lemma is_Exception_iff: "is_Exception e \<longleftrightarrow> e \<noteq> KeyboardInterrupt"
  by (cases e) simp_all

text \<open>
  One failed attempt of the loop, when the duration is not negative and nothing
  interrupts: the request is counted, one random value is drawn, the wait is slept, and
  the loop goes on with the exception as \<^verbatim>\<open>last_exc\<close>.
\<close>

lemma fetch_attempts_failed_step:
  assumes "transport ev (length (gets w)) url = Inl e" and "e \<noteq> KeyboardInterrupt"
    and "0 \<le> backoff" and "0 \<le> rand ev (draws w)" and "\<not> sleep_interrupt ev (length (sleeps w))"
  shows "fetch_attempts ev url N backoff (a # as) lc w =
         fetch_attempts ev url N backoff as (Some e)
           (w\<lparr>gets := gets w @ [url], draws := Suc (draws w),
              sleeps := sleeps w @ [backoff ^ nat a + 1 / 5 * rand ev (draws w)]\<rparr>)"
proof -
  have "\<not> backoff ^ nat a + 1 / 5 * rand ev (draws w) < 0"
    using assms(3,4) by (simp add: add_nonneg_nonneg not_less)
  then show ?thesis
    using assms(1,2,5) by (simp add: try_get_def uniform_def time_sleep_def is_Exception_iff)
qed

lemma attempts_all_fail:
  assumes "0 \<le> backoff" "\<forall>n. 0 \<le> rand ev n" "\<forall>n. \<not> sleep_interrupt ev n"
    "\<forall>n. transport ev n url \<noteq> Inl KeyboardInterrupt"
  shows "\<forall>k < length as. isl (transport ev (length (gets w) + k) url) \<Longrightarrow>
     fst (fetch_attempts ev url N backoff as lc w) =
       Inl (RuntimeError url N
             (if as = [] then lc
              else Some (projl (transport ev (length (gets w) + length as - 1) url))))"
proof (induction as arbitrary: w lc)
  case Nil
  then show ?case by simp
next
  case (Cons a as)
  from Cons.prems have "isl (transport ev (length (gets w)) url)" by force
  then obtain e where e: "transport ev (length (gets w)) url = Inl e"
    by (cases "transport ev (length (gets w)) url") auto
  have ne: "e \<noteq> KeyboardInterrupt" using assms(4) e by metis
  let ?w' = "w\<lparr>gets := gets w @ [url], draws := Suc (draws w),
               sleeps := sleeps w @ [backoff ^ nat a + 1 / 5 * rand ev (draws w)]\<rparr>"
  have step: "fetch_attempts ev url N backoff (a # as) lc w =
              fetch_attempts ev url N backoff as (Some e) ?w'"
    using fetch_attempts_failed_step [OF e ne assms(1)] assms(2,3) by blast
  have "\<forall>k<length as. isl (transport ev (length (gets ?w') + k) url)"
    using Cons.prems by (auto dest: spec [where x = "Suc k" for k])
  from Cons.IH [OF this, of "Some e"] show ?case
    unfolding step using e by (cases as) auto
qed

lemma attempts_first_success:
  assumes "0 \<le> backoff" "\<forall>n. 0 \<le> rand ev n" "\<forall>n. \<not> sleep_interrupt ev n"
    "\<forall>n. transport ev n url \<noteq> Inl KeyboardInterrupt"
  shows "k < length as \<Longrightarrow> transport ev (length (gets w) + k) url = Inr body \<Longrightarrow>
     \<forall>j < k. isl (transport ev (length (gets w) + j) url) \<Longrightarrow>
     fst (fetch_attempts ev url N backoff as lc w) = Inr body"
proof (induction as arbitrary: w lc k)
  case Nil
  then show ?case by simp
next
  case (Cons a as)
  show ?case
  proof (cases k)
    case 0
    with Cons.prems show ?thesis by (simp add: try_get_def)
  next
    case (Suc k')
    with Cons.prems have "isl (transport ev (length (gets w)) url)" by force
    then obtain e where e: "transport ev (length (gets w)) url = Inl e"
      by (cases "transport ev (length (gets w)) url") auto
    have ne: "e \<noteq> KeyboardInterrupt" using assms(4) e by metis
    let ?w' = "w\<lparr>gets := gets w @ [url], draws := Suc (draws w),
                 sleeps := sleeps w @ [backoff ^ nat a + 1 / 5 * rand ev (draws w)]\<rparr>"
    have step: "fetch_attempts ev url N backoff (a # as) lc w =
                fetch_attempts ev url N backoff as (Some e) ?w'"
      using fetch_attempts_failed_step [OF e ne assms(1)] assms(2,3) by blast
    have a1: "k' < length as" using Cons.prems(1) Suc by simp
    have a2: "transport ev (length (gets ?w') + k') url = Inr body" using Cons.prems(2) Suc by simp
    have a3: "\<forall>j<k'. isl (transport ev (length (gets ?w') + j) url)"
      using Cons.prems(3) Suc by (auto dest: spec [where x = "Suc j" for j])
    from Cons.IH [OF a1 a2 a3] show ?thesis unfolding step .
  qed
qed

text \<open>
  Claim C3. Let no attempt be interrupted by the user, and let the backoff base and the
  random values be non-negative (so that no wait is negative). Attempt \<open>k + 1\<close> of a call
  of \<^verbatim>\<open>fetch_html\<close> with \<^verbatim>\<open>retries = N\<close> is request \<open>length (gets w) + k\<close> of the run.
  If some attempt among the \<open>N\<close> succeeds, the call returns the body of the first one
  that does. If all \<open>N\<close> attempts fail, it raises the \<^verbatim>\<open>RuntimeError\<close> whose message
  carries \<open>N\<close> and whose cause is the failure of attempt \<open>N\<close>. It raises exactly when all
  \<open>N\<close> attempts fail, so an exception of a single attempt never reaches the caller.
\<close>

theorem fetch_html_first_success_or_exhausted:
  assumes "0 \<le> backoff" and "\<forall>n. 0 \<le> rand ev n" and "\<forall>n. \<not> sleep_interrupt ev n"
    and "\<forall>n. transport ev n url \<noteq> Inl KeyboardInterrupt"
  shows "(\<forall>k body. k < nat N \<and> transport ev (length (gets w) + k) url = Inr body
              \<and> (\<forall>j < k. isl (transport ev (length (gets w) + j) url))
            \<longrightarrow> fst (fetch_html ev url N backoff w) = Inr body)
       \<and> ((\<forall>k < nat N. isl (transport ev (length (gets w) + k) url))
            \<longrightarrow> fst (fetch_html ev url N backoff w) =
                  Inl (RuntimeError url N
                        (if N \<le> 0 then None
                         else Some (projl (transport ev (length (gets w) + nat N - 1) url)))))
       \<and> (isl (fst (fetch_html ev url N backoff w))
            \<longleftrightarrow> (\<forall>k < nat N. isl (transport ev (length (gets w) + k) url)))"
proof -
  let ?t = "\<lambda>k. transport ev (length (gets w) + k) url"
  let ?r = "fst (fetch_html ev url N backoff w)"
  have len: "length [1..N] = nat N" by simp
  have emp: "[1..N] = [] \<longleftrightarrow> N \<le> 0" by (metis len length_0_conv nat_le_0 nat_0_iff)
  have succ: "?r = Inr body" if "k < nat N" "?t k = Inr body" "\<forall>j < k. isl (?t j)" for k body
    using attempts_first_success [OF assms, of k "[1..N]" w body N None] that
    by (simp add: fetch_html_def)
  have fail: "?r = Inl (RuntimeError url N (if N \<le> 0 then None else Some (projl (?t (nat N - 1)))))"
    if "\<forall>k < nat N. isl (?t k)"
    using attempts_all_fail [OF assms, of "[1..N]" w N None] that emp
    by (simp add: fetch_html_def)
  have conv: "\<forall>k < nat N. isl (?t k)" if "isl ?r"
  proof (rule ccontr)
    assume "\<not> (\<forall>k < nat N. isl (?t k))"
    then have ex: "\<exists>k. k < nat N \<and> \<not> isl (?t k)" by blast
    define m where "m = (LEAST k. k < nat N \<and> \<not> isl (?t k))"
    have m1: "m < nat N \<and> \<not> isl (?t m)" unfolding m_def using ex by (rule LeastI_ex)
    have m2: "\<forall>j < m. isl (?t j)"
    proof (intro allI impI)
      fix j assume "j < m"
      then have "\<not> (j < nat N \<and> \<not> isl (?t j))" unfolding m_def by (rule not_less_Least)
      with \<open>j < m\<close> m1 show "isl (?t j)" by auto
    qed
    from m1 obtain body where "?t m = Inr body" by (cases "?t m") auto
    from succ [OF _ this m2] m1 have "?r = Inr body" by simp
    with that show False by simp
  qed
  show ?thesis using succ fail conv by (auto simp del: fst_conv)
qed

theorem fetch_html_first_success_or_exhausted_witness:
  "(0::real) \<le> 3 / 2
   \<and> (\<forall>n. 0 \<le> rand flaky_env n) \<and> (\<forall>n. \<not> sleep_interrupt flaky_env n)
   \<and> (\<forall>n. transport flaky_env n BASE_URL \<noteq> Inl KeyboardInterrupt)
   \<and> transport flaky_env 0 BASE_URL = Inl (RequestException ''timeout'')
   \<and> transport flaky_env 1 BASE_URL = Inl (RequestException ''timeout'')
   \<and> transport flaky_env 2 BASE_URL = Inr ''page''
   \<and> fst (fetch_html flaky_env BASE_URL 3 (3 / 2) empty_world) = Inr ''page''
   \<and> (\<forall>n. 0 \<le> rand down_env n) \<and> (\<forall>n. \<not> sleep_interrupt down_env n)
   \<and> (\<forall>n. transport down_env n BASE_URL = Inl (HTTPError 503))
   \<and> fst (fetch_html down_env BASE_URL 3 (3 / 2) empty_world)
       = Inl (RuntimeError BASE_URL 3 (Some (HTTPError 503)))"
proof -
  have b: "(0::real) \<le> 3 / 2" by simp
  have f1: "\<forall>n. 0 \<le> rand flaky_env n" by (simp add: flaky_env_def fixture_env_def)
  have f2: "\<forall>n. \<not> sleep_interrupt flaky_env n" by (simp add: flaky_env_def fixture_env_def)
  have ft: "transport flaky_env n BASE_URL =
            (if n < 2 then Inl (RequestException ''timeout'') else Inr ''page'')" for n
    by (simp add: flaky_env_def fixture_env_def transport_def raise_for_status_def)
  have f3: "\<forall>n. transport flaky_env n BASE_URL \<noteq> Inl KeyboardInterrupt" by (simp add: ft)
  have d1: "\<forall>n. 0 \<le> rand down_env n" by (simp add: down_env_def fixture_env_def)
  have d2: "\<forall>n. \<not> sleep_interrupt down_env n" by (simp add: down_env_def fixture_env_def)
  have dt: "transport down_env n BASE_URL = Inl (HTTPError 503)" for n
    by (simp add: down_env_def fixture_env_def transport_def raise_for_status_def)
  have d3: "\<forall>n. transport down_env n BASE_URL \<noteq> Inl KeyboardInterrupt" by (simp add: dt)
  have g0: "length (gets empty_world) = 0" by (simp add: empty_world_def)
  have lt: "\<forall>j<2. isl (transport flaky_env (length (gets empty_world) + j) BASE_URL)"
    by (simp add: ft g0)
  from fetch_html_first_success_or_exhausted [OF b f1 f2 f3, of 3 empty_world]
  have "2 < nat 3 \<and> transport flaky_env (length (gets empty_world) + 2) BASE_URL = Inr ''page''
          \<and> (\<forall>j<2. isl (transport flaky_env (length (gets empty_world) + j) BASE_URL))
        \<longrightarrow> fst (fetch_html flaky_env BASE_URL 3 (3 / 2) empty_world) = Inr ''page''"
    by blast
  then have r1: "fst (fetch_html flaky_env BASE_URL 3 (3 / 2) empty_world) = Inr ''page''"
    using lt by (simp add: ft g0)
  from fetch_html_first_success_or_exhausted [OF b d1 d2 d3, of 3 empty_world]
  have "(\<forall>k < nat 3. isl (transport down_env (length (gets empty_world) + k) BASE_URL))
        \<longrightarrow> fst (fetch_html down_env BASE_URL 3 (3 / 2) empty_world) =
              Inl (RuntimeError BASE_URL 3
                    (if (3::int) \<le> 0 then None
                     else Some (projl (transport down_env (length (gets empty_world) + nat 3 - 1) BASE_URL))))"
    by blast
  then have r2: "fst (fetch_html down_env BASE_URL 3 (3 / 2) empty_world)
       = Inl (RuntimeError BASE_URL 3 (Some (HTTPError 503)))"
    by (simp add: dt)
  show ?thesis using b f1 f2 f3 d1 d2 r1 r2 by (simp add: ft dt)
qed

text \<open>
  Claim C10. With \<^verbatim>\<open>retries\<close> zero or negative the loop body never runs:
  \<^verbatim>\<open>fetch_html\<close> raises the \<^verbatim>\<open>RuntimeError\<close> at once, with no cause (\<^verbatim>\<open>last_exc\<close> is
  still \<^verbatim>\<open>None\<close>), and the world is unchanged: no request was issued and nothing slept.
\<close>

theorem fetch_html_nonpositive_retries:
  "retries \<le> 0 \<Longrightarrow>
   fetch_html ev url retries backoff w = (Inl (RuntimeError url retries None), w)"
  by (simp add: fetch_html_def)

theorem fetch_html_nonpositive_retries_witness:
  "(0::int) \<le> 0
   \<and> fetch_html down_env BASE_URL 0 (3 / 2) empty_world
       = (Inl (RuntimeError BASE_URL 0 None), empty_world)
   \<and> (-2::int) \<le> 0
   \<and> fetch_html down_env BASE_URL (-2) (3 / 2) empty_world
       = (Inl (RuntimeError BASE_URL (-2) None), empty_world)"
  using fetch_html_nonpositive_retries [of 0 down_env BASE_URL "3 / 2" empty_world]
    fetch_html_nonpositive_retries [of "-2" down_env BASE_URL "3 / 2" empty_world]
  by simp

text \<open>
  Claim C4, at the input where the code departs from it: \<^verbatim>\<open>retries = 3\<close> (the default),
  \<^verbatim>\<open>backoff = 1.5\<close> and a server that answers every request with 503. The three
  requests are issued and \<^verbatim>\<open>fetch_html\<close> raises, but it has slept three times: the
  third sleep, of \<open>1.5 ^ 3 + 0.1\<close> seconds, comes after the final failed attempt, when no
  attempt follows.
\<close>

theorem fetch_html_sleeps_after_last_failure:
  "fst (fetch_html down_env BASE_URL 3 (3 / 2) empty_world)
     = Inl (RuntimeError BASE_URL 3 (Some (HTTPError 503)))
   \<and> gets (snd (fetch_html down_env BASE_URL 3 (3 / 2) empty_world)) = [BASE_URL, BASE_URL, BASE_URL]
   \<and> sleeps (snd (fetch_html down_env BASE_URL 3 (3 / 2) empty_world))
     = [3 / 2 + 1 / 10, 9 / 4 + 1 / 10, 27 / 8 + 1 / 10]"
  by (simp add: fetch_html_def try_get_def transport_def raise_for_status_def uniform_def
      time_sleep_def down_env_def fixture_env_def empty_world_def upto.simps
      power2_eq_square power3_eq_cube)

text \<open>
  Claim C7, as amended. The single attempt raises what \<^verbatim>\<open>session.get\<close> raises (a
  connection failure, a timeout), raises \<^verbatim>\<open>HTTPError\<close> for a response whose status is
  from 400 to 599, and returns the text of a response with any other status, the
  statuses below 200 and from 300 to 399 included.
\<close>

theorem transport_raises_for_4xx_5xx_only:
  "(session_get ev n url = Raises e \<longrightarrow> transport ev n url = Inl e)
   \<and> (session_get ev n url = Response status text \<longrightarrow>
        (400 \<le> status \<and> status < 600 \<longrightarrow> transport ev n url = Inl (HTTPError status))
        \<and> (\<not> (400 \<le> status \<and> status < 600) \<longrightarrow> transport ev n url = Inr text))"
  by (auto simp: transport_def raise_for_status_def)

theorem transport_raises_for_4xx_5xx_only_witness:
  "session_get flaky_env 0 BASE_URL = Raises (RequestException ''timeout'')
   \<and> transport flaky_env 0 BASE_URL = Inl (RequestException ''timeout'')
   \<and> session_get down_env 0 BASE_URL = Response 503 ''unavailable''
   \<and> transport down_env 0 BASE_URL = Inl (HTTPError 503)
   \<and> session_get flaky_env 2 BASE_URL = Response 200 ''page''
   \<and> transport flaky_env 2 BASE_URL = Inr ''page''"
proof -
  have a: "session_get flaky_env 0 BASE_URL = Raises (RequestException ''timeout'')"
    by (simp add: flaky_env_def fixture_env_def)
  have b: "session_get down_env 0 BASE_URL = Response 503 ''unavailable''"
    by (simp add: down_env_def fixture_env_def)
  have c: "session_get flaky_env 2 BASE_URL = Response 200 ''page''"
    by (simp add: flaky_env_def fixture_env_def)
  show ?thesis
    using a b c
      transport_raises_for_4xx_5xx_only [of flaky_env 0 BASE_URL "RequestException ''timeout''" 0 "[]"]
      transport_raises_for_4xx_5xx_only [of down_env 0 BASE_URL KeyboardInterrupt 503 "''unavailable''"]
      transport_raises_for_4xx_5xx_only [of flaky_env 2 BASE_URL KeyboardInterrupt 200 "''page''"]
    by simp
qed

text \<open>
  The claim as stated fails: 304 is not a 2xx status, and the attempt returns the body
  of a 304 response instead of raising.
\<close>

theorem transport_returns_304_counterexample:
  "session_get not_modified_env 0 BASE_URL = Response 304 ''cached''
   \<and> \<not> (200 \<le> (304::int) \<and> (304::int) < 300)
   \<and> transport not_modified_env 0 BASE_URL = Inr ''cached''"
  by (simp add: not_modified_env_def fixture_env_def transport_def raise_for_status_def)

section \<open>Properties of the CSV sink\<close>










section \<open>Properties of the SQLite sink\<close>

lemma quote_item_keys: "map fst (quote_item q) = [''quote'', ''author'', ''tags'']"
  by (simp add: quote_item_def Let_def)

text \<open>
  Claim C6, as amended. On a path that SQLite can open, \<^verbatim>\<open>init_sqlite\<close> succeeds. Where
  the store already has a table \<^verbatim>\<open>quotes\<close>, the world is left as it was, whatever the
  table holds; where it has none, the table is added, empty, with the columns of the
  statement. A second call changes nothing. The columns are \<^verbatim>\<open>id\<close>, an
  \<^verbatim>\<open>INTEGER PRIMARY KEY AUTOINCREMENT\<close>, and one \<^verbatim>\<open>TEXT\<close> column for each key of a record,
  in the order of the keys; \<^verbatim>\<open>quote\<close> is \<^verbatim>\<open>NOT NULL\<close>, \<^verbatim>\<open>author\<close> and \<^verbatim>\<open>tags\<close> are
  nullable.
\<close>

theorem init_sqlite_creates_if_absent:
  assumes "stores w p \<noteq> NotADatabase"
  shows "fst (init_sqlite p w) = Inr ()
       \<and> (\<forall>ts t. stores w p = Database ts \<and> map_of ts ''quotes'' = Some t
             \<longrightarrow> snd (init_sqlite p w) = w)
       \<and> (\<forall>ts. connect (stores w p) = Inr ts \<and> map_of ts ''quotes'' = None
             \<longrightarrow> stores (snd (init_sqlite p w)) p
                   = Database (ts @ [(''quotes'', \<lparr>columns = quotes_columns, table_rows = [],
                                                  last_rowid = 0\<rparr>)]))
       \<and> init_sqlite p (snd (init_sqlite p w)) = (Inr (), snd (init_sqlite p w))
       \<and> map col_name quotes_columns = ''id'' # map fst (quote_item q)
       \<and> (\<forall>c \<in> set quotes_columns.
            (col_name c = ''id'' \<longrightarrow> col_type c = ''INTEGER'' \<and> primary_key c \<and> autoincrement c)
            \<and> (col_name c \<noteq> ''id'' \<longrightarrow> col_type c = ''TEXT'' \<and> \<not> primary_key c \<and> \<not> autoincrement c)
            \<and> (not_null c \<longleftrightarrow> col_name c = ''quote''))"
proof -
  have cols: "\<forall>c \<in> set quotes_columns.
            (col_name c = ''id'' \<longrightarrow> col_type c = ''INTEGER'' \<and> primary_key c \<and> autoincrement c)
            \<and> (col_name c \<noteq> ''id'' \<longrightarrow> col_type c = ''TEXT'' \<and> \<not> primary_key c \<and> \<not> autoincrement c)
            \<and> (not_null c \<longleftrightarrow> col_name c = ''quote'')"
    by (simp add: quotes_columns_def)
  have names: "map col_name quotes_columns = ''id'' # map fst (quote_item q)"
    by (simp add: quotes_columns_def quote_item_keys)
  obtain ts where ts: "connect (stores w p) = Inr ts"
    using assms by (cases "stores w p") auto
  show ?thesis
  proof (cases "map_of ts ''quotes''")
    case None
    have upd: "map_of (ts @ [(''quotes'', t)]) ''quotes'' = Some t" for t :: table
      using None by (simp add: map_add_def map_of_append)
    show ?thesis
      using ts None upd cols names assms
      by (cases "stores w p") (auto simp: init_sqlite_def)
  next
    case (Some t)
    then have db: "stores w p = Database ts"
      using ts by (cases "stores w p") auto
    have same: "w\<lparr>stores := (stores w)(p := Database ts)\<rparr> = w"
      using db by (metis fun_upd_triv world.surjective world.update_convs(5))
    show ?thesis
      using ts Some db same cols names by (auto simp: init_sqlite_def)
  qed
qed


theorem init_sqlite_creates_if_absent_witness:
  "stores empty_world ''data.db'' \<noteq> NotADatabase
   \<and> connect (stores empty_world ''data.db'') = Inr []
   \<and> fst (init_sqlite ''data.db'' empty_world) = Inr ()
   \<and> stores (snd (init_sqlite ''data.db'' empty_world)) ''data.db'' = Database fresh_tables
   \<and> stores stored_world ''data.db'' = Database stored_tables
   \<and> map_of stored_tables ''quotes'' = Some (snd (hd stored_tables))
   \<and> fst (init_sqlite ''data.db'' stored_world) = Inr ()
   \<and> snd (init_sqlite ''data.db'' stored_world) = stored_world"
proof -
  have a: "stores empty_world ''data.db'' \<noteq> NotADatabase" by (simp add: empty_world_def)
  have a': "connect (stores empty_world ''data.db'') = Inr []" by (simp add: empty_world_def)
  have b: "stores stored_world ''data.db'' \<noteq> NotADatabase"
    by (simp add: stored_world_def empty_world_def)
  have b': "stores stored_world ''data.db'' = Database stored_tables"
    by (simp add: stored_world_def empty_world_def)
  have b'': "map_of stored_tables ''quotes'' = Some (snd (hd stored_tables))"
    by (simp add: stored_tables_def)
  note A = init_sqlite_creates_if_absent [OF a, of "([], NavigableString [])"]
  note B = init_sqlite_creates_if_absent [OF b, of "([], NavigableString [])"]
  have m0: "map_of ([] :: tables) ''quotes'' = None" by simp
  from A have "connect (stores empty_world ''data.db'') = Inr [] \<and> map_of ([] :: tables) ''quotes'' = None
      \<longrightarrow> stores (snd (init_sqlite ''data.db'' empty_world)) ''data.db''
        = Database ([] @ [(''quotes'', \<lparr>columns = quotes_columns, table_rows = [], last_rowid = 0\<rparr>)])"
    by blast
  with a' m0 have "stores (snd (init_sqlite ''data.db'' empty_world)) ''data.db''
        = Database ([] @ [(''quotes'', \<lparr>columns = quotes_columns, table_rows = [], last_rowid = 0\<rparr>)])"
    by blast
  then have a2: "stores (snd (init_sqlite ''data.db'' empty_world)) ''data.db'' = Database fresh_tables"
    by (simp add: fresh_tables_def)
  from B b' b'' have b2: "snd (init_sqlite ''data.db'' stored_world) = stored_world" by blast
  from A have a1: "fst (init_sqlite ''data.db'' empty_world) = Inr ()" by blast
  from B have b1: "fst (init_sqlite ''data.db'' stored_world) = Inr ()" by blast
  show ?thesis using a a' a1 a2 b' b'' b1 b2 by simp
qed

text \<open>
  The claim as stated fails: the column \<^verbatim>\<open>quote\<close> is declared \<^verbatim>\<open>NOT NULL\<close>, and an
  insertion into the created table that leaves it out is refused.
\<close>

theorem init_sqlite_quote_not_null_counterexample:
  "stores (snd (init_sqlite ''data.db'' empty_world)) ''data.db'' = Database fresh_tables
   \<and> col_name (quotes_columns ! 1) = ''quote''
   \<and> not_null (quotes_columns ! 1)
   \<and> execute (InsertInto ''quotes'' [''author'', ''tags''] [TextV ''W. S.'', TextV ''life'']) fresh_tables
       = Inl (IntegrityError ''NOT NULL constraint failed'')"
  by (simp add: init_sqlite_def empty_world_def fresh_tables_def quotes_columns_def insert_row_def)

section \<open>Properties of the page extractor\<close>

lemma first_or_none_None: "first_or_none xs = None \<longleftrightarrow> xs = []"
  by (cases xs) (simp_all add: first_or_none_def)

lemma select_in_empty:
  "select_in outer c ds = [] \<longleftrightarrow> (\<forall>d \<in> set ds. \<not> (matches c (snd d) \<and> match_chain outer (fst d)))"
  by (auto simp: select_in_def filter_empty_conv)

lemma select_in_no_outer:
  "select_in [] c ds = filter (\<lambda>d. matches c (snd d)) ds"
  unfolding select_in_def by (rule filter_cong) auto


text \<open>
  Claim C8. \<^verbatim>\<open>parse_quotes\<close> has a result for every input (no step of it raises). The
  records are the dicts built from the \<^verbatim>\<open>div.quote\<close> elements of the document, one for
  each element, in document order. Each record has the three keys; where the element
  has no \<^verbatim>\<open>span.text\<close> descendant the value of \<^verbatim>\<open>quote\<close> is the empty string, where it has no
  \<^verbatim>\<open>small.author\<close> descendant the value of \<^verbatim>\<open>author\<close> is, and where it has no \<^verbatim>\<open>a.tag\<close>
  descendant below a \<^verbatim>\<open>div.tags\<close> the value of \<^verbatim>\<open>tags\<close> is. A document with no
  \<^verbatim>\<open>div.quote\<close> element gives no record, and a document with no \<^verbatim>\<open>a\<close> below a
  \<^verbatim>\<open>li.next\<close> gives \<^verbatim>\<open>None\<close> as the next reference.
\<close>

theorem parse_quotes_degrades_gracefully:
  assumes "parse_quotes ev html = (items, next_href)"
    and "qs = filter (\<lambda>d. matches (''div'', Some ''quote'') (snd d)) (soup_descendants (lxml ev html))"
  shows "items = map quote_item qs
       \<and> (\<forall>q \<in> set qs.
            map fst (quote_item q) = [''quote'', ''author'', ''tags'']
            \<and> ((\<forall>d \<in> set (descendants (fst q) (snd q)). \<not> matches (''span'', Some ''text'') (snd d))
                 \<longrightarrow> map_of (quote_item q) ''quote'' = Some [])
            \<and> ((\<forall>d \<in> set (descendants (fst q) (snd q)). \<not> matches (''small'', Some ''author'') (snd d))
                 \<longrightarrow> map_of (quote_item q) ''author'' = Some [])
            \<and> ((\<forall>d \<in> set (descendants (fst q) (snd q)).
                    \<not> (matches (''a'', Some ''tag'') (snd d) \<and> match_chain [(''div'', Some ''tags'')] (fst d)))
                 \<longrightarrow> map_of (quote_item q) ''tags'' = Some []))
       \<and> ((\<forall>d \<in> set (soup_descendants (lxml ev html)). \<not> matches (''div'', Some ''quote'') (snd d))
            \<longrightarrow> items = [])
       \<and> ((\<forall>d \<in> set (soup_descendants (lxml ev html)).
               \<not> (matches (''a'', None) (snd d) \<and> match_chain [(''li'', Some ''next'')] (fst d)))
            \<longrightarrow> next_href = None)"
proof -
  let ?doc = "lxml ev html"
  have items: "items = map quote_item qs"
    using assms by (simp add: parse_quotes_def parse_soup_def Let_def soup_select_def select_in_no_outer)
  have nx: "next_href = (case soup_select_one [(''li'', Some ''next'')] (''a'', None) ?doc of
                           Some l \<Rightarrow> get_attr l ''href'' | None \<Rightarrow> None)"
    using assms(1) by (simp add: parse_quotes_def parse_soup_def Let_def)
  have no_next: "next_href = None"
    if "\<forall>d \<in> set (soup_descendants ?doc).
          \<not> (matches (''a'', None) (snd d) \<and> match_chain [(''li'', Some ''next'')] (fst d))"
  proof -
    from that have "soup_select [(''li'', Some ''next'')] (''a'', None) ?doc = []"
      by (simp add: soup_select_def select_in_empty)
    then show ?thesis by (simp add: nx soup_select_one_def first_or_none_def)
  qed
  have no_quote: "items = []"
    if "\<forall>d \<in> set (soup_descendants ?doc). \<not> matches (''div'', Some ''quote'') (snd d)"
    using that items assms(2) by (simp add: filter_empty_conv)
  have fields: "map fst (quote_item q) = [''quote'', ''author'', ''tags'']" for q
    by (simp add: quote_item_def Let_def)
  have f1: "map_of (quote_item q) ''quote'' = Some []"
    if "\<forall>d \<in> set (descendants (fst q) (snd q)). \<not> matches (''span'', Some ''text'') (snd d)" for q
  proof -
    from that have "select [] (''span'', Some ''text'') q = []"
      by (simp add: select_def select_in_empty)
    then show ?thesis by (simp add: quote_item_def Let_def select_one_def first_or_none_def)
  qed
  have f2: "map_of (quote_item q) ''author'' = Some []"
    if "\<forall>d \<in> set (descendants (fst q) (snd q)). \<not> matches (''small'', Some ''author'') (snd d)" for q
  proof -
    from that have "select [] (''small'', Some ''author'') q = []"
      by (simp add: select_def select_in_empty)
    then show ?thesis by (simp add: quote_item_def Let_def select_one_def first_or_none_def)
  qed
  have f3: "map_of (quote_item q) ''tags'' = Some []"
    if "\<forall>d \<in> set (descendants (fst q) (snd q)).
          \<not> (matches (''a'', Some ''tag'') (snd d) \<and> match_chain [(''div'', Some ''tags'')] (fst d))" for q
  proof -
    from that have "select [(''div'', Some ''tags'')] (''a'', Some ''tag'') q = []"
      by (simp add: select_def select_in_empty)
    then show ?thesis by (simp add: quote_item_def Let_def)
  qed
  show ?thesis
    using items fields f1 f2 f3 no_quote no_next by blast
qed


theorem parse_quotes_degrades_gracefully_witness:
  "parse_quotes two_page_env ''first'' =
       ([[(''quote'', ''To be''), (''author'', ''W. S.''), (''tags'', ''life, stage'')],
         [(''quote'', ''I think''), (''author'', []), (''tags'', [])]],
        Some ''/page/2/'')
   \<and> snd (filter (\<lambda>d. matches (''div'', Some ''quote'') (snd d))
               (soup_descendants (lxml two_page_env ''first'')) ! 1) = bare_quote
   \<and> map_of (quote_item (filter (\<lambda>d. matches (''div'', Some ''quote'') (snd d))
                            (soup_descendants (lxml two_page_env ''first'')) ! 1)) ''author'' = Some []
   \<and> map_of (quote_item (filter (\<lambda>d. matches (''div'', Some ''quote'') (snd d))
                            (soup_descendants (lxml two_page_env ''first'')) ! 1)) ''tags'' = Some []
   \<and> parse_quotes two_page_env ''gone'' = ([], None)"
proof -
  let ?qs = "filter (\<lambda>d. matches (''div'', Some ''quote'') (snd d))
               (soup_descendants (lxml two_page_env ''first''))"
  let ?q = "?qs ! 1"
  have p1: "parse_quotes two_page_env ''first'' =
       ([[(''quote'', ''To be''), (''author'', ''W. S.''), (''tags'', ''life, stage'')],
         [(''quote'', ''I think''), (''author'', []), (''tags'', [])]],
        Some ''/page/2/'')"
    by code_simp
  have q: "snd ?q = bare_quote" by code_simp
  have qin: "?q \<in> set ?qs" by code_simp
  have na: "\<forall>d \<in> set (descendants (fst ?q) (snd ?q)). \<not> matches (''small'', Some ''author'') (snd d)"
    by code_simp
  have nt: "\<forall>d \<in> set (descendants (fst ?q) (snd ?q)).
              \<not> (matches (''a'', Some ''tag'') (snd d) \<and> match_chain [(''div'', Some ''tags'')] (fst d))"
    by code_simp
  note T1 = parse_quotes_degrades_gracefully [OF p1 refl]
  from T1 qin na have a1: "map_of (quote_item ?q) ''author'' = Some []" by blast
  from T1 qin nt have a2: "map_of (quote_item ?q) ''tags'' = Some []" by blast
  obtain items nh where p2: "parse_quotes two_page_env ''gone'' = (items, nh)"
    by (cases "parse_quotes two_page_env ''gone''")
  have nq: "\<forall>d \<in> set (soup_descendants (lxml two_page_env ''gone'')).
              \<not> matches (''div'', Some ''quote'') (snd d)"
    by code_simp
  have nn: "\<forall>d \<in> set (soup_descendants (lxml two_page_env ''gone'')).
              \<not> (matches (''a'', None) (snd d) \<and> match_chain [(''li'', Some ''next'')] (fst d))"
    by code_simp
  note T2 = parse_quotes_degrades_gracefully [OF p2 refl]
  from T2 nq have i0: "items = []" by blast
  from T2 nn have n0: "nh = None" by blast
  show ?thesis using p1 q a1 a2 p2 i0 n0 by simp
qed

section \<open>Properties of the pagination controller\<close>

lemma parse_quotes_keys:
  "r \<in> set (fst (parse_quotes ev html)) \<Longrightarrow> map fst r = [''quote'', ''author'', ''tags'']"
  by (auto simp: parse_quotes_def parse_soup_def Let_def quote_item_keys)

subsection \<open>The sinks accept the records of a page\<close>

lemma writerows_ok:
  "\<forall>r \<in> set rows. map fst r = fieldnames \<Longrightarrow> fst (writerows fieldnames rows ls) = Inr ()"
proof (induction rows arbitrary: ls)
  case Nil
  show ?case by simp
next
  case (Cons r rows)
  then have "dict_to_list fieldnames r
             = Inr (map (\<lambda>k. case map_of r k of Some v \<Rightarrow> v | None \<Rightarrow> []) fieldnames)"
    by (auto simp: dict_to_list_def)
  with Cons show ?case by simp
qed

lemma save_to_csv_ok:
  assumes "csv_files w p \<noteq> Unopenable" and "\<forall>r \<in> set rows. map fst r = ks"
  shows "fst (save_to_csv rows p w) = Inr ()
       \<and> gets (snd (save_to_csv rows p w)) = gets w
       \<and> stores (snd (save_to_csv rows p w)) = stores w
       \<and> (\<forall>p'. csv_files w p' \<noteq> Unopenable \<longrightarrow> csv_files (snd (save_to_csv rows p w)) p' \<noteq> Unopenable)"
proof (cases rows)
  case Nil
  then show ?thesis by (simp add: save_to_csv_def)
next
  case (Cons r0 rs)
  then have all: "\<forall>r \<in> set rows. map fst r = map fst r0" using assms(2) by simp
  have wr: "fst (writerows (map fst r0) rows ls) = Inr ()" for ls
    using all by (rule writerows_ok)
  show ?thesis
    using assms(1) wr unfolding Cons [symmetric]
    by (cases "csv_files w p")
       (simp_all add: save_to_csv_def Cons Let_def case_prod_beta del: writerows.simps)
qed


lemma map_of_replace:
  "map_of ts n = Some t \<Longrightarrow>
   map_of (map (\<lambda>nt. if fst nt = n then (n, t') else nt) ts) n = Some t'"
  by (induction ts) (auto split: if_splits)

lemma insert_row_ok:
  assumes "columns t = quotes_columns"
  shows "\<exists>t'. insert_row t (zip [''quote'', ''author'', ''tags''] [TextV q, TextV a, TextV g]) = Inr t'
              \<and> columns t' = quotes_columns"
  using assms by (simp add: insert_row_def quotes_columns_def Let_def)

lemma execute_insert_ok:
  assumes "map_of ts ''quotes'' = Some t" and "columns t = quotes_columns"
  shows "\<exists>ts' t'. execute (InsertInto ''quotes'' [''quote'', ''author'', ''tags'']
                         [TextV q, TextV a, TextV g]) ts = Inr ts'
              \<and> map_of ts' ''quotes'' = Some t' \<and> columns t' = quotes_columns"
proof -
  from insert_row_ok [OF assms(2), of q a g] obtain t'
    where t': "insert_row t (zip [''quote'', ''author'', ''tags''] [TextV q, TextV a, TextV g]) = Inr t'"
      "columns t' = quotes_columns" by blast
  have "execute (InsertInto ''quotes'' [''quote'', ''author'', ''tags''] [TextV q, TextV a, TextV g]) ts
        = Inr (map (\<lambda>nt. if fst nt = ''quotes'' then (''quotes'', t') else nt) ts)"
    using assms(1) t'(1) by (simp del: zip_Cons_Cons)
  with map_of_replace [OF assms(1), of t'] t'(2) show ?thesis by blast
qed

lemma executemany_ok:
  assumes "\<forall>p \<in> set ps. \<exists>q a g. p = [TextV q, TextV a, TextV g]"
  shows "map_of ts ''quotes'' = Some t \<Longrightarrow> columns t = quotes_columns \<Longrightarrow>
     \<exists>ts' t'. executemany (InsertInto ''quotes'' [''quote'', ''author'', ''tags'']) ps ts = Inr ts'
              \<and> map_of ts' ''quotes'' = Some t' \<and> columns t' = quotes_columns"
  using assms
proof (induction ps arbitrary: ts t)
  case Nil
  then show ?case by simp
next
  case (Cons p ps)
  then obtain q a g where p: "p = [TextV q, TextV a, TextV g]" by auto
  from execute_insert_ok [OF Cons.prems(1,2), of q a g] obtain ts1 t1
    where s1: "execute (InsertInto ''quotes'' [''quote'', ''author'', ''tags''] p) ts = Inr ts1"
      "map_of ts1 ''quotes'' = Some t1" "columns t1 = quotes_columns"
    unfolding p by blast
  from Cons.IH [OF s1(2,3)] Cons.prems(3) obtain ts' t'
    where "executemany (InsertInto ''quotes'' [''quote'', ''author'', ''tags'']) ps ts1 = Inr ts'"
      "map_of ts' ''quotes'' = Some t'" "columns t' = quotes_columns" by auto
  then show ?case using s1(1) by (simp del: execute.simps)
qed

lemma row_params_ok:
  assumes "map fst r = [''quote'', ''author'', ''tags'']"
  shows "\<exists>q a g. row_params r = Inr [TextV q, TextV a, TextV g]"
proof -
  have "\<exists>v. map_of r k = Some v" if "k \<in> set (map fst r)" for k
    using that by (metis map_of_eq_None_iff not_Some_eq set_map)
  then obtain q a g where "map_of r ''quote'' = Some q" "map_of r ''author'' = Some a"
    "map_of r ''tags'' = Some g"
    unfolding assms by fastforce
  then show ?thesis by (simp add: row_params_def getitem_def)
qed

lemma all_params_ok:
  "\<forall>r \<in> set rows. map fst r = [''quote'', ''author'', ''tags''] \<Longrightarrow>
   \<exists>ps. all_params rows = Inr ps \<and> (\<forall>p \<in> set ps. \<exists>q a g. p = [TextV q, TextV a, TextV g])"
proof (induction rows)
  case Nil
  show ?case by simp
next
  case (Cons r rows)
  from Cons.prems row_params_ok [of r] obtain q a g
    where r: "row_params r = Inr [TextV q, TextV a, TextV g]" by auto
  from Cons obtain ps where ps: "all_params rows = Inr ps"
    "\<forall>p \<in> set ps. \<exists>q a g. p = [TextV q, TextV a, TextV g]" by auto
  show ?case using r ps by simp
qed

lemma save_to_sqlite_ok:
  assumes "stores w d = Database ts" and "map_of ts ''quotes'' = Some t"
    and "columns t = quotes_columns"
    and "\<forall>r \<in> set rows. map fst r = [''quote'', ''author'', ''tags'']"
  shows "\<exists>ts' t'. save_to_sqlite rows d w
            = (Inr (), if rows = [] then w else w\<lparr>stores := (stores w)(d := Database ts')\<rparr>)
          \<and> map_of ts' ''quotes'' = Some t' \<and> columns t' = quotes_columns"
proof (cases rows)
  case Nil
  then show ?thesis using assms(2,3) by (auto simp: save_to_sqlite_def)
next
  case (Cons r0 rs)
  from all_params_ok [OF assms(4)] obtain ps where ps: "all_params rows = Inr ps"
    "\<forall>p \<in> set ps. \<exists>q a g. p = [TextV q, TextV a, TextV g]" by blast
  from executemany_ok [OF ps(2) assms(2,3)] obtain ts' t'
    where e: "executemany (InsertInto ''quotes'' [''quote'', ''author'', ''tags'']) ps ts = Inr ts'"
      "map_of ts' ''quotes'' = Some t'" "columns t' = quotes_columns" by blast
  have "save_to_sqlite rows d w = (Inr (), w\<lparr>stores := (stores w)(d := Database ts')\<rparr>)"
    using assms(1) ps(1) e(1) unfolding Cons [symmetric]
    by (simp add: save_to_sqlite_def Cons del: all_params.simps)
  then show ?thesis using e(2,3) Cons by auto
qed


lemma sqlite_inited_cong: "stores w' = stores w \<Longrightarrow> sqlite_inited sq w' = sqlite_inited sq w"
  by (simp add: sqlite_inited_def split: option.splits)

lemma csv_ready_cong: "csv_files w' = csv_files w \<Longrightarrow> csv_ready c w' = csv_ready c w"
  by (simp add: csv_ready_def split: option.splits)

lemma persist_ok:
  assumes "csv_ready csv w1" and "sqlite_inited sq w1"
    and keys: "\<forall>r \<in> set items. map fst r = [''quote'', ''author'', ''tags'']"
  shows "\<exists>w2 w3. if_path csv (save_to_csv items) w1 = (Inr (), w2)
              \<and> if_path sq (save_to_sqlite items) w2 = (Inr (), w3)
              \<and> gets w3 = gets w1 \<and> csv_ready csv w3 \<and> sqlite_inited sq w3"
proof -
  define w2 where "w2 = snd (if_path csv (save_to_csv items) w1)"
  have c: "if_path csv (save_to_csv items) w1 = (Inr (), w2) \<and> gets w2 = gets w1
           \<and> stores w2 = stores w1 \<and> csv_ready csv w2"
  proof (cases "\<exists>p. csv = Some p \<and> p \<noteq> []")
    case True
    then obtain p where p: "csv = Some p" "p \<noteq> []" by blast
    with assms(1) have op: "csv_files w1 p \<noteq> Unopenable" by (simp add: csv_ready_def)
    from save_to_csv_ok [OF op keys] op show ?thesis
      unfolding w2_def by (auto simp: if_path_def p csv_ready_def prod_eq_iff)
  next
    case False
    then show ?thesis using assms(1) unfolding w2_def
      by (cases csv) (auto simp: if_path_def csv_ready_def)
  qed
  define w3 where "w3 = snd (if_path sq (save_to_sqlite items) w2)"
  have i2: "sqlite_inited sq w2" using assms(2) c sqlite_inited_cong [of w2 w1 sq] by simp
  have d: "if_path sq (save_to_sqlite items) w2 = (Inr (), w3) \<and> gets w3 = gets w2
           \<and> csv_files w3 = csv_files w2 \<and> sqlite_inited sq w3"
  proof (cases "\<exists>d. sq = Some d \<and> d \<noteq> []")
    case True
    then obtain d where d: "sq = Some d" "d \<noteq> []" by blast
    with i2 obtain ts t where st: "stores w2 d = Database ts" "map_of ts ''quotes'' = Some t"
      "columns t = quotes_columns"
      by (auto simp: sqlite_inited_def split: store.splits option.splits)
    from save_to_sqlite_ok [OF st keys] obtain ts' t'
      where r: "save_to_sqlite items d w2
                 = (Inr (), if items = [] then w2 else w2\<lparr>stores := (stores w2)(d := Database ts')\<rparr>)"
        "map_of ts' ''quotes'' = Some t'" "columns t' = quotes_columns" by blast
    show ?thesis
      unfolding w3_def using r st d by (simp add: if_path_def sqlite_inited_def)
  next
    case False
    then show ?thesis using i2 unfolding w3_def
      by (cases sq) (auto simp: if_path_def sqlite_inited_def)
  qed
  have "csv_ready csv w3" using c d csv_ready_cong [of w3 w2 csv] by simp
  with c d show ?thesis by auto
qed

lemma fetch_html_static:
  assumes "\<forall>n u. transport ev n u = Inr (site u)"
  shows "fetch_html ev url 3 (3 / 2) w = (Inr (site url), w\<lparr>gets := gets w @ [url]\<rparr>)"
  using assms by (simp add: fetch_html_def upto.simps try_get_def)

text \<open>The polite delay, when no sleep is interrupted: only the random draws and the
  sleeps change, and the run goes on.\<close>

lemma polite_delay_continues:
  assumes "\<forall>n. \<not> sleep_interrupt ev n"
  shows "\<exists>w5. gets w5 = gets w3 \<and> csv_files w5 = csv_files w3 \<and> stores w5 = stores w3
          \<and> (\<forall>A B. (case uniform ev 0 b w3 of
                (jitter, w4) \<Rightarrow>
                  (let sleep_for = max 0 (delay + jitter) in
                   case (if sleep_for \<noteq> 0 then time_sleep ev sleep_for w4 else (Inr (), w4)) of
                     (Inl e, w5) \<Rightarrow> A e w5
                   | (Inr _, w5) \<Rightarrow> B w5)) = (B w5 :: 'a))"
proof -
  let ?j = "b * rand ev (draws w3)"
  let ?w4 = "w3\<lparr>draws := Suc (draws w3)\<rparr>"
  let ?s = "max 0 (delay + ?j)"
  show ?thesis
  proof (cases "?s = 0")
    case True
    then show ?thesis
      by (intro exI [of _ ?w4]) (simp add: uniform_def Let_def)
  next
    case False
    have nn: "\<not> ?s < 0" by simp
    show ?thesis
      using False nn assms
      by (intro exI [of _ "?w4\<lparr>sleeps := sleeps ?w4 @ [?s]\<rparr>"])
         (simp add: uniform_def Let_def time_sleep_def)
  qed
qed

subsection \<open>A sink that fails\<close>

lemma writerows_not_interrupt: "fst (writerows fs rows ls) \<noteq> Inl KeyboardInterrupt"
proof (induction rows arbitrary: ls)
  case Nil
  show ?case by simp
next
  case (Cons r rows)
  then show ?case by (cases "dict_to_list fs r") (auto simp: dict_to_list_def split: if_splits)
qed

lemma save_to_csv_frame:
  "gets (snd (save_to_csv rows p w)) = gets w \<and> stores (snd (save_to_csv rows p w)) = stores w
   \<and> fst (save_to_csv rows p w) \<noteq> Inl KeyboardInterrupt"
proof (cases rows)
  case Nil
  then show ?thesis by (simp add: save_to_csv_def)
next
  case (Cons r0 rs)
  show ?thesis
    using writerows_not_interrupt unfolding Cons
    by (cases "csv_files w p")
       (simp_all add: save_to_csv_def Let_def case_prod_beta del: writerows.simps)
qed

lemma executemany_not_interrupt:
  "executemany (InsertInto n cs) ps ts \<noteq> Inl KeyboardInterrupt"
proof (induction ps arbitrary: ts)
  case Nil
  show ?case by simp
next
  case (Cons p ps)
  have "execute (InsertInto n cs p) ts \<noteq> Inl KeyboardInterrupt"
    by (auto simp: insert_row_def Let_def split: option.splits sum.splits if_splits)
  with Cons show ?case by (cases "execute (InsertInto n cs p) ts") (auto simp del: execute.simps)
qed

lemma all_params_not_interrupt: "all_params rows \<noteq> Inl KeyboardInterrupt"
  by (induction rows)
     (auto simp: row_params_def getitem_def split: sum.splits option.splits)

lemma save_to_sqlite_failure:
  "save_to_sqlite rows d w = (Inl e, w') \<Longrightarrow> w' = w \<and> e \<noteq> KeyboardInterrupt"
  using executemany_not_interrupt [of "''quotes''" "[''quote'', ''author'', ''tags'']"]
    all_params_not_interrupt [of rows]
  by (cases rows; cases "stores w d")
     (auto simp: save_to_sqlite_def split: sum.splits simp del: all_params.simps)


text \<open>
  Claim C1, as amended. An exception of a sink is not caught in \<^verbatim>\<open>scrape\<close>: it ends the
  run where it is raised, and \<^verbatim>\<open>main\<close> turns it into the exit status 1. When
  \<^verbatim>\<open>init_sqlite\<close> fails, \<^verbatim>\<open>scrape\<close> ends before the loop, with the world as it was (no
  request issued). When \<^verbatim>\<open>save_to_csv\<close> fails on a page, the pass ends with that
  exception whatever fuel is left: \<^verbatim>\<open>save_to_sqlite\<close> is not called for the page (the
  stores are as they were after the fetch) and no further request is issued. When
  \<^verbatim>\<open>save_to_sqlite\<close> fails on a page, the pass ends with that exception, and the world
  is the one \<^verbatim>\<open>save_to_csv\<close> left: what the CSV sink wrote stays written.
\<close>

theorem sink_failure_ends_run:
  "(sqlite_path = Some d \<and> d \<noteq> [] \<and> init_sqlite d w = (Inl e, w0) \<longrightarrow>
      scrape fuel ev lp delay csv_path sqlite_path w = Some (Inl e, 0, w) \<and> w0 = w
      \<and> exit_status (Inl e) = 1)
   \<and> (fetch_html ev url 3 (3 / 2) w = (Inr html, w1) \<and> csv_path = Some p \<and> p \<noteq> []
        \<and> save_to_csv (fst (parse_quotes ev html)) p w1 = (Inl e, w2) \<longrightarrow>
      scrape_loop (Suc fuel) ev lp delay csv_path sqlite_path url page0 w = Some (Inl e, page0 + 1, w2)
      \<and> gets w2 = gets w1 \<and> stores w2 = stores w1 \<and> exit_status (Inl e) = 1)
   \<and> (fetch_html ev url 3 (3 / 2) w = (Inr html, w1)
        \<and> if_path csv_path (save_to_csv (fst (parse_quotes ev html))) w1 = (Inr (), w2)
        \<and> sqlite_path = Some d \<and> d \<noteq> []
        \<and> save_to_sqlite (fst (parse_quotes ev html)) d w2 = (Inl e, w3) \<longrightarrow>
      scrape_loop (Suc fuel) ev lp delay csv_path sqlite_path url page0 w = Some (Inl e, page0 + 1, w2)
      \<and> w3 = w2 \<and> exit_status (Inl e) = 1)"
proof (intro conjI impI)
  assume a: "sqlite_path = Some d \<and> d \<noteq> [] \<and> init_sqlite d w = (Inl e, w0)"
  then have w0: "w0 = w" and e: "e \<noteq> KeyboardInterrupt"
    by (cases "stores w d"; auto simp: init_sqlite_def split: option.splits)+
  show "scrape fuel ev lp delay csv_path sqlite_path w = Some (Inl e, 0, w)"
    using a w0 by (simp add: scrape_def if_path_def)
  show "w0 = w" by (rule w0)
  show "exit_status (Inl e) = 1" using e by (simp add: exit_status_def)
next
  assume a: "fetch_html ev url 3 (3 / 2) w = (Inr html, w1) \<and> csv_path = Some p \<and> p \<noteq> []
        \<and> save_to_csv (fst (parse_quotes ev html)) p w1 = (Inl e, w2)"
  obtain items nh where pq: "parse_quotes ev html = (items, nh)" by (cases "parse_quotes ev html")
  from save_to_csv_frame [of items p w1] a pq
  have fr: "gets w2 = gets w1" "stores w2 = stores w1" "e \<noteq> KeyboardInterrupt" by auto
  show "scrape_loop (Suc fuel) ev lp delay csv_path sqlite_path url page0 w = Some (Inl e, page0 + 1, w2)"
    using a pq by (simp add: if_path_def)
  show "gets w2 = gets w1" by (rule fr)
  show "stores w2 = stores w1" by (rule fr)
  show "exit_status (Inl e) = 1" using fr(3) by (simp add: exit_status_def)
next
  assume a: "fetch_html ev url 3 (3 / 2) w = (Inr html, w1)
        \<and> if_path csv_path (save_to_csv (fst (parse_quotes ev html))) w1 = (Inr (), w2)
        \<and> sqlite_path = Some d \<and> d \<noteq> []
        \<and> save_to_sqlite (fst (parse_quotes ev html)) d w2 = (Inl e, w3)"
  obtain items nh where pq: "parse_quotes ev html = (items, nh)" by (cases "parse_quotes ev html")
  from save_to_sqlite_failure [of items d w2 e w3] a pq
  have fr: "w3 = w2" "e \<noteq> KeyboardInterrupt" by auto
  have sq: "if_path sqlite_path (save_to_sqlite items) w2 = (Inl e, w2)"
    using a pq fr by (simp add: if_path_def)
  show "scrape_loop (Suc fuel) ev lp delay csv_path sqlite_path url page0 w = Some (Inl e, page0 + 1, w2)"
    using a pq sq by simp
  show "w3 = w2" by (rule fr)
  show "exit_status (Inl e) = 1" using fr(2) by (simp add: exit_status_def)
qed


theorem sink_failure_ends_run_witness:
  "init_sqlite ''data.db'' broken_store_world
     = (Inl (OperationalError ''unable to open database file''), broken_store_world)
   \<and> scrape 5 two_page_env None 1 (Some ''data.csv'') (Some ''data.db'') broken_store_world
     = Some (Inl (OperationalError ''unable to open database file''), 0, broken_store_world)
   \<and> fetch_html two_page_env BASE_URL 3 (3 / 2) locked_world
     = (Inr ''first'', locked_world\<lparr>gets := [BASE_URL]\<rparr>)
   \<and> save_to_csv (fst (parse_quotes two_page_env ''first'')) ''data.csv'' (locked_world\<lparr>gets := [BASE_URL]\<rparr>)
     = (Inl (OSError ''data.csv''), locked_world\<lparr>gets := [BASE_URL]\<rparr>)
   \<and> scrape_loop (Suc 4) two_page_env None 1 (Some ''data.csv'') (Some ''data.db'') BASE_URL 0 locked_world
     = Some (Inl (OSError ''data.csv''), 0 + 1, locked_world\<lparr>gets := [BASE_URL]\<rparr>)
   \<and> exit_status (Inl (OSError ''data.csv'')) = 1
   \<and> fetch_html two_page_env BASE_URL 3 (3 / 2) foreign_store_world
     = (Inr ''first'', foreign_store_world\<lparr>gets := [BASE_URL]\<rparr>)
   \<and> save_to_sqlite (fst (parse_quotes two_page_env ''first'')) ''data.db''
        (foreign_store_world\<lparr>gets := [BASE_URL]\<rparr>)
     = (Inl (OperationalError ''table has no such column''), foreign_store_world\<lparr>gets := [BASE_URL]\<rparr>)
   \<and> scrape_loop (Suc 4) two_page_env None 1 None (Some ''data.db'') BASE_URL 0 foreign_store_world
     = Some (Inl (OperationalError ''table has no such column''), 0 + 1,
             foreign_store_world\<lparr>gets := [BASE_URL]\<rparr>)"
proof -
  have pq: "fst (parse_quotes two_page_env ''first'') =
       [[(''quote'', ''To be''), (''author'', ''W. S.''), (''tags'', ''life, stage'')],
        [(''quote'', ''I think''), (''author'', []), (''tags'', [])]]"
    by code_simp
  have i: "init_sqlite ''data.db'' broken_store_world
     = (Inl (OperationalError ''unable to open database file''), broken_store_world)"
    by (simp add: init_sqlite_def broken_store_world_def empty_world_def)
  have tr: "\<forall>n u. transport two_page_env n u = Inr (two_page_site u)"
    by (simp add: two_page_env_def fixture_env_def transport_def raise_for_status_def two_page_site_def)
  have f1: "fetch_html two_page_env BASE_URL 3 (3 / 2) locked_world
     = (Inr ''first'', locked_world\<lparr>gets := [BASE_URL]\<rparr>)"
    using fetch_html_static [OF tr, of BASE_URL locked_world]
    by (simp add: two_page_site_def locked_world_def empty_world_def)
  have f2: "fetch_html two_page_env BASE_URL 3 (3 / 2) foreign_store_world
     = (Inr ''first'', foreign_store_world\<lparr>gets := [BASE_URL]\<rparr>)"
    using fetch_html_static [OF tr, of BASE_URL foreign_store_world]
    by (simp add: two_page_site_def foreign_store_world_def empty_world_def)
  have c: "save_to_csv (fst (parse_quotes two_page_env ''first'')) ''data.csv''
             (locked_world\<lparr>gets := [BASE_URL]\<rparr>)
     = (Inl (OSError ''data.csv''), locked_world\<lparr>gets := [BASE_URL]\<rparr>)"
    unfolding pq by (simp add: save_to_csv_def locked_world_def empty_world_def)
  have q: "save_to_sqlite (fst (parse_quotes two_page_env ''first'')) ''data.db''
        (foreign_store_world\<lparr>gets := [BASE_URL]\<rparr>)
     = (Inl (OperationalError ''table has no such column''), foreign_store_world\<lparr>gets := [BASE_URL]\<rparr>)"
    unfolding pq
    by (simp add: save_to_sqlite_def foreign_store_world_def empty_world_def foreign_tables_def
        row_params_def getitem_def insert_row_def)
  have n: "if_path None (save_to_csv (fst (parse_quotes two_page_env ''first'')))
             (foreign_store_world\<lparr>gets := [BASE_URL]\<rparr>)
           = (Inr (), foreign_store_world\<lparr>gets := [BASE_URL]\<rparr>)"
    by (simp add: if_path_def)
  have r1: "scrape 5 two_page_env None 1 (Some ''data.csv'') (Some ''data.db'') broken_store_world
     = Some (Inl (OperationalError ''unable to open database file''), 0, broken_store_world)"
    using sink_failure_ends_run [where sqlite_path = "Some ''data.db''" and d = "''data.db''"
        and w = broken_store_world and e = "OperationalError ''unable to open database file''"
        and ?w0.0 = broken_store_world and fuel = 5 and ev = two_page_env and lp = None
        and delay = 1 and csv_path = "Some ''data.csv''", THEN conjunct1] i
    by simp
  have r2: "scrape_loop (Suc 4) two_page_env None 1 (Some ''data.csv'') (Some ''data.db'') BASE_URL 0
              locked_world
     = Some (Inl (OSError ''data.csv''), 0 + 1, locked_world\<lparr>gets := [BASE_URL]\<rparr>)
     \<and> exit_status (Inl (OSError ''data.csv'')) = 1"
    using sink_failure_ends_run [where ev = two_page_env and url = BASE_URL and w = locked_world
        and html = "''first''" and ?w1.0 = "locked_world\<lparr>gets := [BASE_URL]\<rparr>"
        and csv_path = "Some ''data.csv''" and p = "''data.csv''" and e = "OSError ''data.csv''"
        and ?w2.0 = "locked_world\<lparr>gets := [BASE_URL]\<rparr>" and fuel = 4 and lp = None
        and delay = 1 and sqlite_path = "Some ''data.db''" and ?page0.0 = 0,
        THEN conjunct2, THEN conjunct1] f1 c
    by simp
  have r3: "scrape_loop (Suc 4) two_page_env None 1 None (Some ''data.db'') BASE_URL 0 foreign_store_world
     = Some (Inl (OperationalError ''table has no such column''), 0 + 1,
             foreign_store_world\<lparr>gets := [BASE_URL]\<rparr>)"
    using sink_failure_ends_run [where ev = two_page_env and url = BASE_URL and w = foreign_store_world
        and html = "''first''" and ?w1.0 = "foreign_store_world\<lparr>gets := [BASE_URL]\<rparr>"
        and csv_path = None and ?w2.0 = "foreign_store_world\<lparr>gets := [BASE_URL]\<rparr>"
        and sqlite_path = "Some ''data.db''" and d = "''data.db''"
        and e = "OperationalError ''table has no such column''"
        and ?w3.0 = "foreign_store_world\<lparr>gets := [BASE_URL]\<rparr>" and fuel = 4 and lp = None
        and delay = 1 and ?page0.0 = 0,
        THEN conjunct2, THEN conjunct2] f2 n q
    by simp
  show ?thesis using i r1 f1 c r2 f2 q r3 by (simp only: simp_thms)
qed

text \<open>
  The claim as stated fails. The CSV path of this world cannot be opened and a SQLite
  path is configured as well; the first page has two records and a next link. The run
  ends with the \<^verbatim>\<open>OSError\<close> of \<^verbatim>\<open>save_to_csv\<close> after one request, the table of the SQLite
  sink is still empty, and the second page is never requested (the same run on a
  world with an absent CSV file requests both pages).
\<close>

theorem sink_failure_aborts_counterexample:
  "csv_files locked_world ''data.csv'' = Unopenable
   \<and> length (fst (parse_quotes two_page_env ''first'')) = 2
   \<and> snd (parse_quotes two_page_env ''first'') = Some ''/page/2/''
   \<and> map_option fst (scrape 5 two_page_env None 1 (Some ''data.csv'') (Some ''data.db'') locked_world)
       = Some (Inl (OSError ''data.csv''))
   \<and> map_option (gets \<circ> snd \<circ> snd)
         (scrape 5 two_page_env None 1 (Some ''data.csv'') (Some ''data.db'') locked_world)
       = Some [BASE_URL]
   \<and> map_option (store_at ''data.db'' \<circ> snd \<circ> snd)
         (scrape 5 two_page_env None 1 (Some ''data.csv'') (Some ''data.db'') locked_world)
       = Some (Database fresh_tables)
   \<and> map_option (gets \<circ> snd \<circ> snd)
         (scrape 5 two_page_env None 1 (Some ''data.csv'') (Some ''data.db'') empty_world)
       = Some [BASE_URL, BASE_URL @ ''/page/2/'']"
  by code_simp

subsection \<open>The exit status\<close>

text \<open>
  Claim C2, as amended. The exit status that \<^verbatim>\<open>main\<close> returns is determined by how
  \<^verbatim>\<open>scrape\<close> ended, and there are three of them: 0 when it returned, from the limit
  branch or from the no-next-link branch alike; 2 when it was left by
  \<^verbatim>\<open>KeyboardInterrupt\<close>; 1 when it was left by any other exception, the
  \<^verbatim>\<open>RuntimeError\<close> of an exhausted fetch among them.
\<close>

theorem main_exit_status:
  assumes "main fuel ev a w = Some (code, w')"
  shows "\<exists>r page.
           scrape fuel ev (if arg_limit_pages a > 0 then Some (arg_limit_pages a) else None)
             (arg_delay a)
             (if strip (arg_csv_path a) \<noteq> [] then Some (arg_csv_path a) else None)
             (if strip (arg_sqlite_path a) \<noteq> [] then Some (strip (arg_sqlite_path a)) else None) w
             = Some (r, page, w')
         \<and> (code = 0 \<longleftrightarrow> r = Inr ReachedLimit \<or> r = Inr NoNextLink)
         \<and> (code = 2 \<longleftrightarrow> r = Inl KeyboardInterrupt)
         \<and> (code = 1 \<longleftrightarrow> (\<exists>e. r = Inl e \<and> e \<noteq> KeyboardInterrupt))
         \<and> (\<forall>url n c. r = Inl (RuntimeError url n c) \<longrightarrow> code = 1)"
proof -
  let ?s = "scrape fuel ev (if arg_limit_pages a > 0 then Some (arg_limit_pages a) else None)
             (arg_delay a)
             (if strip (arg_csv_path a) \<noteq> [] then Some (arg_csv_path a) else None)
             (if strip (arg_sqlite_path a) \<noteq> [] then Some (strip (arg_sqlite_path a)) else None) w"
  from assms obtain r page where s: "?s = Some (r, page, w')" and c: "code = exit_status r"
    by (auto simp: main_def Let_def split: option.splits)
  have "(code = 0 \<longleftrightarrow> r = Inr ReachedLimit \<or> r = Inr NoNextLink)
         \<and> (code = 2 \<longleftrightarrow> r = Inl KeyboardInterrupt)
         \<and> (code = 1 \<longleftrightarrow> (\<exists>e. r = Inl e \<and> e \<noteq> KeyboardInterrupt))
         \<and> (\<forall>url n c. r = Inl (RuntimeError url n c) \<longrightarrow> code = 1)"
  proof (cases r)
    case (Inl e)
    then show ?thesis using c by (auto simp: exit_status_def)
  next
    case (Inr st)
    then show ?thesis using c by (cases st) (auto simp: exit_status_def)
  qed
  with s show ?thesis by blast
qed

theorem main_exit_status_witness:
  "map_option fst (main 3 endless_env limit_args empty_world) = Some 0
   \<and> (\<exists>r page w'.
         scrape 3 endless_env (if arg_limit_pages limit_args > 0 then Some (arg_limit_pages limit_args) else None)
           (arg_delay limit_args)
           (if strip (arg_csv_path limit_args) \<noteq> [] then Some (arg_csv_path limit_args) else None)
           (if strip (arg_sqlite_path limit_args) \<noteq> []
            then Some (strip (arg_sqlite_path limit_args)) else None) empty_world
           = Some (r, page, w')
         \<and> (r = Inr ReachedLimit \<or> r = Inr NoNextLink))
   \<and> map_option fst (scrape 3 endless_env (Some 3) 1 (Some ''data.csv'') None empty_world)
       = Some (Inr ReachedLimit)
   \<and> map_option fst (main 3 down_env default_args empty_world) = Some 1
   \<and> map_option fst (scrape 3 down_env None 1 (Some ''data.csv'') None empty_world)
       = Some (Inl (RuntimeError BASE_URL 3 (Some (HTTPError 503))))
   \<and> map_option fst (main 3 interrupted_env default_args empty_world) = Some 2
   \<and> map_option fst (scrape 3 interrupted_env None 1 (Some ''data.csv'') None empty_world)
       = Some (Inl KeyboardInterrupt)"
proof -
  have m0: "map_option fst (main 3 endless_env limit_args empty_world) = Some 0" by code_simp
  then obtain w' where m: "main 3 endless_env limit_args empty_world = Some (0, w')"
    by (cases "main 3 endless_env limit_args empty_world") auto
  from main_exit_status [OF m]
  have e: "\<exists>r page w'.
         scrape 3 endless_env (if arg_limit_pages limit_args > 0 then Some (arg_limit_pages limit_args) else None)
           (arg_delay limit_args)
           (if strip (arg_csv_path limit_args) \<noteq> [] then Some (arg_csv_path limit_args) else None)
           (if strip (arg_sqlite_path limit_args) \<noteq> []
            then Some (strip (arg_sqlite_path limit_args)) else None) empty_world
           = Some (r, page, w')
         \<and> (r = Inr ReachedLimit \<or> r = Inr NoNextLink)"
    by auto
  have s1: "map_option fst (scrape 3 endless_env (Some 3) 1 (Some ''data.csv'') None empty_world)
       = Some (Inr ReachedLimit)" by code_simp
  have m1: "map_option fst (main 3 down_env default_args empty_world) = Some 1" by code_simp
  have s2: "map_option fst (scrape 3 down_env None 1 (Some ''data.csv'') None empty_world)
       = Some (Inl (RuntimeError BASE_URL 3 (Some (HTTPError 503))))" by code_simp
  have m2: "map_option fst (main 3 interrupted_env default_args empty_world) = Some 2" by code_simp
  have s3: "map_option fst (scrape 3 interrupted_env None 1 (Some ''data.csv'') None empty_world)
       = Some (Inl KeyboardInterrupt)" by code_simp
  show ?thesis using m0 e s1 m1 s2 m2 s3 by (simp only: simp_thms)
qed

text \<open>
  The claim as stated fails: a run that ends at the page limit and a run that ends at
  a page with no next link are two of the four outcomes, and \<^verbatim>\<open>main\<close> returns 0 for
  both.
\<close>

theorem main_exit_status_counterexample:
  "map_option fst (scrape 3 endless_env (Some 3) 1 (Some ''data.csv'') None empty_world)
       = Some (Inr ReachedLimit)
   \<and> map_option fst (main 3 endless_env limit_args empty_world) = Some 0
   \<and> map_option fst (scrape 3 two_page_env None 1 (Some ''data.csv'') None empty_world)
       = Some (Inr NoNextLink)
   \<and> map_option fst (main 3 two_page_env default_args empty_world) = Some 0
   \<and> ReachedLimit \<noteq> NoNextLink"
  by code_simp

subsection \<open>The run along the page chain\<close>

lemma persist_page_eq:
  assumes "if_path csv (save_to_csv items) w1 = (r2, w2)"
    and "if_path sq (save_to_sqlite items) w2 = (r3, w3)"
  shows "persist_page csv sq items w1 = w3"
  using assms by (simp add: persist_page_def)

lemma save_to_csv_files_cong:
  assumes "csv_files v = csv_files w"
  shows "csv_files (snd (save_to_csv rows p v)) = csv_files (snd (save_to_csv rows p w))"
proof (cases rows)
  case Nil
  then show ?thesis using assms by (simp add: save_to_csv_def)
next
  case (Cons r0 rs)
  show ?thesis using assms unfolding Cons
    by (cases "csv_files w p")
       (simp_all add: save_to_csv_def Let_def case_prod_beta del: writerows.simps)
qed

lemma save_to_sqlite_frame:
  "csv_files (snd (save_to_sqlite rows d w)) = csv_files w"
  by (cases rows) (auto simp: save_to_sqlite_def split: sum.splits simp del: all_params.simps)

lemma save_to_sqlite_stores_cong:
  "stores v = stores w \<Longrightarrow>
   stores (snd (save_to_sqlite rows d v)) = stores (snd (save_to_sqlite rows d w))"
  by (cases rows) (auto simp: save_to_sqlite_def split: sum.splits simp del: all_params.simps)

lemma persist_page_cong:
  assumes "csv_files v = csv_files w" and "stores v = stores w"
  shows "csv_files (persist_page c s items v) = csv_files (persist_page c s items w)
       \<and> stores (persist_page c s items v) = stores (persist_page c s items w)"
proof -
  let ?v2 = "snd (if_path c (save_to_csv items) v)"
  let ?w2 = "snd (if_path c (save_to_csv items) w)"
  have c2: "csv_files ?v2 = csv_files ?w2"
    using assms(1) save_to_csv_files_cong [of v w items]
    by (auto simp: if_path_def split: option.splits)
  have s2: "stores ?v2 = stores ?w2"
    using assms(2) save_to_csv_frame [of items _ v] save_to_csv_frame [of items _ w]
    by (auto simp: if_path_def split: option.splits)
  have c3: "csv_files (snd (if_path s (save_to_sqlite items) ?v2))
            = csv_files (snd (if_path s (save_to_sqlite items) ?w2))"
    using c2 save_to_sqlite_frame [of items _ ?v2] save_to_sqlite_frame [of items _ ?w2]
    by (auto simp: if_path_def split: option.splits)
  have s3: "stores (snd (if_path s (save_to_sqlite items) ?v2))
            = stores (snd (if_path s (save_to_sqlite items) ?w2))"
    using s2 save_to_sqlite_stores_cong [of ?v2 ?w2 items]
    by (auto simp: if_path_def split: option.splits)
  show ?thesis using c3 s3 by (simp add: persist_page_def)
qed

lemma persist_pages_cong:
  "csv_files v = csv_files w \<Longrightarrow> stores v = stores w \<Longrightarrow>
   csv_files (persist_pages c s bs v) = csv_files (persist_pages c s bs w)
   \<and> stores (persist_pages c s bs v) = stores (persist_pages c s bs w)"
proof (induction bs arbitrary: v w)
  case Nil
  then show ?case by simp
next
  case (Cons items bs)
  from persist_page_cong [OF Cons.prems, of c s items]
  have "csv_files (persist_page c s items v) = csv_files (persist_page c s items w)"
    and "stores (persist_page c s items v) = stores (persist_page c s items w)" by auto
  from Cons.IH [OF this] show ?case by simp
qed

text \<open>A fetch that succeeds made between one and \<^verbatim>\<open>retries\<close> requests, all at its url, and
  left the destinations alone.\<close>

lemma fetch_attempts_success:
  "fetch_attempts ev url N b as lc w = (Inr body, w1) \<Longrightarrow>
   csv_files w1 = csv_files w \<and> stores w1 = stores w
   \<and> (\<exists>a. 0 < a \<and> a \<le> length as \<and> gets w1 = gets w @ replicate a url)"
proof (induction as arbitrary: w lc)
  case Nil
  then show ?case by simp
next
  case (Cons x as)
  show ?case
  proof (cases "transport ev (length (gets w)) url")
    case (Inr tx)
    with Cons.prems have "w1 = w\<lparr>gets := gets w @ [url]\<rparr>" by (auto simp: try_get_def)
    then have "csv_files w1 = csv_files w \<and> stores w1 = stores w
        \<and> 0 < (1::nat) \<and> 1 \<le> length (x # as) \<and> gets w1 = gets w @ replicate 1 url" by simp
    then show ?thesis by blast
  next
    case (Inl e)
    let ?w3 = "w\<lparr>gets := gets w @ [url], draws := Suc (draws w),
                 sleeps := sleeps w @ [b ^ nat x + 1 / 5 * rand ev (draws w)]\<rparr>"
    from Cons.prems Inl have rec: "fetch_attempts ev url N b as (Some e) ?w3 = (Inr body, w1)"
      by (simp add: try_get_def uniform_def time_sleep_def split: if_splits)
    from Cons.IH [OF rec] obtain a where a: "csv_files w1 = csv_files ?w3" "stores w1 = stores ?w3"
      "0 < a" "a \<le> length as" "gets w1 = gets ?w3 @ replicate a url" by blast
    have "csv_files w1 = csv_files w \<and> stores w1 = stores w
        \<and> 0 < Suc a \<and> Suc a \<le> length (x # as) \<and> gets w1 = gets w @ replicate (Suc a) url"
      using a by simp
    then show ?thesis by blast
  qed
qed

lemma fetch_html_success:
  assumes "fst (fetch_html ev url 3 (3 / 2) w) = Inr body"
  shows "\<exists>w1 a. fetch_html ev url 3 (3 / 2) w = (Inr body, w1)
          \<and> csv_files w1 = csv_files w \<and> stores w1 = stores w
          \<and> 0 < a \<and> a \<le> 3 \<and> gets w1 = gets w @ replicate a url"
proof -
  obtain w1 where f: "fetch_html ev url 3 (3 / 2) w = (Inr body, w1)"
    using assms by (cases "fetch_html ev url 3 (3 / 2) w") auto
  from fetch_attempts_success [of ev url 3 "3 / 2" "[1..3]" None w body w1] f
  show ?thesis by (auto simp: fetch_html_def)
qed

lemma scrape_loop_Suc:
  assumes "fetch_html ev url 3 (3 / 2) w = (Inr html, w1)"
    and "parse_quotes ev html = (items, nh)"
    and "if_path csv (save_to_csv items) w1 = (Inr (), w2)"
    and "if_path sq (save_to_sqlite items) w2 = (Inr (), w3)"
  shows "scrape_loop (Suc fuel) ev lp delay csv sq url page0 w =
     (if limit_reached lp (page0 + 1) then Some (Inr ReachedLimit, page0 + 1, w3)
      else
        (case nh of
           None \<Rightarrow> Some (Inr NoNextLink, page0 + 1, w3)
         | Some href \<Rightarrow>
             if href = [] then Some (Inr NoNextLink, page0 + 1, w3)
             else
               (case uniform ev 0 (if delay \<noteq> 0 then delay * (15 / 100) else 0) w3 of
                  (jitter, w4) \<Rightarrow>
                    (let sleep_for = max 0 (delay + jitter) in
                     case (if sleep_for \<noteq> 0 then time_sleep ev sleep_for w4 else (Inr (), w4)) of
                       (Inl e, w5) \<Rightarrow> Some (Inl e, page0 + 1, w5)
                     | (Inr _, w5) \<Rightarrow>
                         (case urljoin ev url href of
                            Inl e \<Rightarrow> Some (Inl e, page0 + 1, w5)
                          | Inr url' \<Rightarrow>
                              scrape_loop fuel ev lp delay csv sq url' (page0 + 1) w5)))))"
  using assms by (simp add: Let_def)

lemma has_next_Some: "has_next nh \<Longrightarrow> \<exists>href. nh = Some href \<and> href \<noteq> []"
  by (cases nh) auto

lemma requests_of_Cons:
  "requests_of ev site ((a, j) # ajs) = replicate a (nth_url ev site j) @ requests_of ev site ajs"
  by (simp add: requests_of_def)

lemma scrape_loop_run:
  assumes ns: "\<forall>n. \<not> sleep_interrupt ev n"
  shows "k \<le> m \<Longrightarrow>
     \<forall>j v. k \<le> j \<and> j \<le> m \<longrightarrow>
        fst (fetch_html ev (nth_url ev site j) 3 (3 / 2) v) = Inr (site (nth_url ev site j)) \<Longrightarrow>
     \<forall>j. k \<le> j \<and> j < m \<longrightarrow>
        \<not> limit_reached lp (int j + 1) \<and> has_next (next_of ev site j) \<and> resolves ev site j \<Longrightarrow>
     limit_reached lp (int m + 1) \<or> \<not> has_next (next_of ev site m) \<Longrightarrow>
     csv_ready csv w \<Longrightarrow> sqlite_inited sq w \<Longrightarrow> m - k < fuel \<Longrightarrow>
     \<exists>w' as. scrape_loop fuel ev lp delay csv sq (nth_url ev site k) (int k) w
             = Some (Inr (if limit_reached lp (int m + 1) then ReachedLimit else NoNextLink),
                     int m + 1, w')
          \<and> length as = Suc m - k \<and> (\<forall>a \<in> set as. 0 < a \<and> a \<le> 3)
          \<and> gets w' = gets w @ requests_of ev site (zip as [k..<Suc m])
          \<and> csv_files w' = csv_files (persist_pages csv sq (map (page_items ev site) [k..<Suc m]) w)
          \<and> stores w' = stores (persist_pages csv sq (map (page_items ev site) [k..<Suc m]) w)"
proof (induction fuel arbitrary: k w)
  case 0
  then show ?case by simp
next
  case (Suc fuel)
  let ?url = "nth_url ev site k"
  have "fst (fetch_html ev ?url 3 (3 / 2) w) = Inr (site ?url)"
    using Suc.prems(1,2) by simp
  from fetch_html_success [OF this] obtain w1 a
    where f: "fetch_html ev ?url 3 (3 / 2) w = (Inr (site ?url), w1)"
      and fr: "csv_files w1 = csv_files w" "stores w1 = stores w"
      and a: "0 < a" "a \<le> 3" and g1: "gets w1 = gets w @ replicate a ?url" by blast
  obtain items nh where pq: "parse_quotes ev (site ?url) = (items, nh)"
    by (cases "parse_quotes ev (site ?url)")
  have nh: "nh = next_of ev site k" using pq by (simp add: next_of_def)
  have it: "items = page_items ev site k" using pq by (simp add: page_items_def)
  have keys: "\<forall>r \<in> set items. map fst r = [''quote'', ''author'', ''tags'']"
    using parse_quotes_keys [of _ ev "site ?url"] pq by simp
  have c1: "csv_ready csv w1" using Suc.prems(5) fr(1) csv_ready_cong [of w1 w csv] by simp
  have i1: "sqlite_inited sq w1" using Suc.prems(6) fr(2) sqlite_inited_cong [of w1 w sq] by simp
  from persist_ok [OF c1 i1 keys] obtain w2 w3
    where p: "if_path csv (save_to_csv items) w1 = (Inr (), w2)"
      "if_path sq (save_to_sqlite items) w2 = (Inr (), w3)"
      "gets w3 = gets w1" "csv_ready csv w3" "sqlite_inited sq w3" by blast
  have w3: "w3 = persist_page csv sq items w1" using persist_page_eq [OF p(1,2)] by simp
  have pc: "csv_files w3 = csv_files (persist_page csv sq items w)"
    "stores w3 = stores (persist_page csv sq items w)"
    unfolding w3 using persist_page_cong [OF fr, of csv sq items] by auto
  note step = scrape_loop_Suc [OF f pq p(1,2), of fuel lp delay "int k"]
  show ?case
  proof (cases "k = m")
    case True
    have idx: "[k..<Suc m] = [k]" using True by simp
    have g: "gets w3 = gets w @ requests_of ev site (zip [a] [k..<Suc m])"
      unfolding idx using p(3) g1 by (simp add: requests_of_def)
    have pp: "csv_files w3 = csv_files (persist_pages csv sq (map (page_items ev site) [k..<Suc m]) w)"
      "stores w3 = stores (persist_pages csv sq (map (page_items ev site) [k..<Suc m]) w)"
      unfolding idx using pc it by simp_all
    have la: "length [a] = Suc m - k" "\<forall>x \<in> set [a]. 0 < x \<and> x \<le> 3" using True a by simp_all
    have res: "scrape_loop (Suc fuel) ev lp delay csv sq ?url (int k) w
            = Some (Inr (if limit_reached lp (int m + 1) then ReachedLimit else NoNextLink),
                    int m + 1, w3)"
    proof (cases "limit_reached lp (int k + 1)")
      case lr: True
      have "scrape_loop (Suc fuel) ev lp delay csv sq ?url (int k) w
            = Some (Inr ReachedLimit, int k + 1, w3)"
        unfolding step using lr by (simp only: if_True)
      then show ?thesis using lr True by (simp only: if_True)
    next
      case lr: False
      with Suc.prems(4) have "\<not> has_next nh" using nh True by simp
      then have "nh = None \<or> nh = Some []" by (cases nh) auto
      then have "scrape_loop (Suc fuel) ev lp delay csv sq ?url (int k) w
            = Some (Inr NoNextLink, int k + 1, w3)"
        unfolding step using lr by (auto simp only: if_False if_True option.case simp_thms)
      then show ?thesis using lr True by (simp only: if_False)
    qed
    show ?thesis
      using res la g pp by (intro exI [of _ w3] exI [of _ "[a]"]) (simp only: simp_thms)
  next
    case False
    with Suc.prems(1) have km: "k < m" by simp
    with Suc.prems(3) have nl: "\<not> limit_reached lp (int k + 1)" and hn: "has_next nh"
      and rs: "resolves ev site k"
      using nh by auto
    from has_next_Some [OF hn] obtain href where href: "nh = Some href" "href \<noteq> []" by blast
    from rs href nh obtain url' where uj: "urljoin ev ?url href = Inr url'"
      by (cases "urljoin ev ?url href") (auto simp: resolves_def)
    have nu: "url' = nth_url ev site (Suc k)"
      using pq href uj by simp
    let ?b = "if delay \<noteq> 0 then delay * (15 / 100) else 0"
    have "\<exists>w5. gets w5 = gets w3 \<and> csv_files w5 = csv_files w3 \<and> stores w5 = stores w3
          \<and> (\<forall>A B. (case uniform ev 0 ?b w3 of
                (jitter, w4) \<Rightarrow>
                  (let sleep_for = max 0 (delay + jitter) in
                   case (if sleep_for \<noteq> 0 then time_sleep ev sleep_for w4 else (Inr (), w4)) of
                     (Inl e, w5) \<Rightarrow> A e w5
                   | (Inr _, w5) \<Rightarrow> B w5)) = (B w5 :: ((exn + stop) \<times> int \<times> world) option))"
      using ns by (rule polite_delay_continues)
    then obtain w5 where w5all: "gets w5 = gets w3 \<and> csv_files w5 = csv_files w3 \<and> stores w5 = stores w3
          \<and> (\<forall>A B. (case uniform ev 0 ?b w3 of
                (jitter, w4) \<Rightarrow>
                  (let sleep_for = max 0 (delay + jitter) in
                   case (if sleep_for \<noteq> 0 then time_sleep ev sleep_for w4 else (Inr (), w4)) of
                     (Inl e, w5) \<Rightarrow> A e w5
                   | (Inr _, w5) \<Rightarrow> B w5)) = (B w5 :: ((exn + stop) \<times> int \<times> world) option))" ..
    have w5: "gets w5 = gets w3" "csv_files w5 = csv_files w3" "stores w5 = stores w3"
      using w5all by (rule conjunct1, rule conjunct2 [THEN conjunct1],
          rule conjunct2 [THEN conjunct2, THEN conjunct1])
    have cont: "(case uniform ev 0 ?b w3 of
                (jitter, w4) \<Rightarrow>
                  (let sleep_for = max 0 (delay + jitter) in
                   case (if sleep_for \<noteq> 0 then time_sleep ev sleep_for w4 else (Inr (), w4)) of
                     (Inl e, w5) \<Rightarrow> A e w5
                   | (Inr _, w5) \<Rightarrow> B w5)) = (B w5 :: ((exn + stop) \<times> int \<times> world) option)" for A B
      by (rule w5all [THEN conjunct2, THEN conjunct2, THEN conjunct2, THEN spec, THEN spec])
    have eq: "scrape_loop (Suc fuel) ev lp delay csv sq ?url (int k) w
              = scrape_loop fuel ev lp delay csv sq (nth_url ev site (Suc k)) (int (Suc k)) w5"
      unfolding step using nl href
      by (simp only: if_False option.case cont uj sum.case nu) (simp add: add.commute)
    have c5: "csv_ready csv w5" using p(4) w5(2) csv_ready_cong [of w5 w3 csv] by simp
    have i5: "sqlite_inited sq w5" using p(5) w5(3) sqlite_inited_cong [of w5 w3 sq] by simp
    have a1: "Suc k \<le> m" using km by simp
    have a2: "\<forall>j v. Suc k \<le> j \<and> j \<le> m \<longrightarrow>
        fst (fetch_html ev (nth_url ev site j) 3 (3 / 2) v) = Inr (site (nth_url ev site j))"
      using Suc.prems(2) by simp
    have a3: "\<forall>j. Suc k \<le> j \<and> j < m \<longrightarrow>
        \<not> limit_reached lp (int j + 1) \<and> has_next (next_of ev site j) \<and> resolves ev site j"
      using Suc.prems(3) by simp
    have a7: "m - Suc k < fuel" using Suc.prems(7) km by simp
    from Suc.IH [OF a1 a2 a3 Suc.prems(4) c5 i5 a7] obtain w' as
      where r: "scrape_loop fuel ev lp delay csv sq (nth_url ev site (Suc k)) (int (Suc k)) w5
                = Some (Inr (if limit_reached lp (int m + 1) then ReachedLimit else NoNextLink),
                        int m + 1, w')"
        and las: "length as = Suc m - Suc k" "\<forall>x \<in> set as. 0 < x \<and> x \<le> 3"
        and gs: "gets w' = gets w5 @ requests_of ev site (zip as [Suc k..<Suc m])"
        and ps: "csv_files w' = csv_files (persist_pages csv sq (map (page_items ev site) [Suc k..<Suc m]) w5)"
          "stores w' = stores (persist_pages csv sq (map (page_items ev site) [Suc k..<Suc m]) w5)"
      by blast
    have idx: "[k..<Suc m] = k # [Suc k..<Suc m]" using km by (simp add: upt_conv_Cons)
    have l': "length (a # as) = Suc m - k" using las(1) km by simp
    have b': "\<forall>x \<in> set (a # as). 0 < x \<and> x \<le> 3" using las(2) a by simp
    have g': "gets w' = gets w @ requests_of ev site (zip (a # as) [k..<Suc m])"
      unfolding idx using gs w5(1) p(3) g1 by (simp add: requests_of_Cons)
    have e5: "csv_files w5 = csv_files (persist_page csv sq items w)"
      "stores w5 = stores (persist_page csv sq items w)"
      using w5(2,3) pc by simp_all
    from persist_pages_cong [OF e5, of csv sq "map (page_items ev site) [Suc k..<Suc m]"]
    have p': "csv_files w' = csv_files (persist_pages csv sq (map (page_items ev site) [k..<Suc m]) w)"
      "stores w' = stores (persist_pages csv sq (map (page_items ev site) [k..<Suc m]) w)"
      unfolding idx using ps it by simp_all
    show ?thesis
      unfolding eq using r l' b' g' p'
      by (intro exI [of _ w'] exI [of _ "a # as"]) (simp only: simp_thms)
  qed
qed

lemma init_sqlite_ok:
  assumes "sqlite_ready sq w"
  shows "\<exists>w1. if_path sq init_sqlite w = (Inr (), w1) \<and> gets w1 = gets w
              \<and> csv_files w1 = csv_files w \<and> sqlite_inited sq w1"
proof (cases "\<exists>d. sq = Some d \<and> d \<noteq> []")
  case True
  then obtain d where d: "sq = Some d" "d \<noteq> []" by blast
  with assms obtain ts where ts: "connect (stores w d) = Inr ts"
    and cols: "\<forall>t. map_of ts ''quotes'' = Some t \<longrightarrow> columns t = quotes_columns"
    by (auto simp: sqlite_ready_def split: sum.splits option.splits)
  show ?thesis
  proof (cases "map_of ts ''quotes''")
    case None
    then have "map_of (ts @ [(''quotes'', t)]) ''quotes'' = Some t" for t :: table
      by (simp add: map_add_def map_of_append)
    then show ?thesis
      using ts None d by (simp add: if_path_def init_sqlite_def sqlite_inited_def)
  next
    case (Some t)
    then show ?thesis
      using ts cols d by (simp add: if_path_def init_sqlite_def sqlite_inited_def)
  qed
next
  case False
  then show ?thesis by (cases sq) (auto simp: if_path_def sqlite_inited_def)
qed


text \<open>
  Claim C5, as amended. Take a run that no sleep interrupts and destinations that accept
  the writes, on a site whose pages answer with their bodies: every fetch of a page of
  the chain succeeds, at the first attempt or after retries. A page has a next link the
  run can follow when its next reference is neither \<^verbatim>\<open>None\<close> nor the empty string and
  \<^verbatim>\<open>urljoin\<close> accepts it. With a limit \<open>L > 0\<close>, if each of the first \<open>L - 1\<close> pages has
  such a link, then \<^verbatim>\<open>scrape\<close> returns from the limit branch with \<^verbatim>\<open>page = L\<close>; its
  requests are those of \<open>L\<close> fetches, each of one to three attempts at the url of one of
  the first \<open>L\<close> pages in turn, and no other; and the destinations are as the sinks
  leave them when given, after \<^verbatim>\<open>init_sqlite\<close>, the batch of each of these pages in turn.
  Any fuel from \<open>L\<close> on is enough. With no limit (\<^verbatim>\<open>None\<close> or 0), if the chain has \<open>N\<close>
  pages, the last one being the first without a non-empty next reference, the same
  holds with \<open>N\<close> for \<open>L\<close> and the no-next-link branch for the limit branch.
\<close>

theorem scrape_stops_at_limit_or_last_page:
  assumes "\<forall>n. \<not> sleep_interrupt ev n" and "csv_ready csv w" and "sqlite_ready sq w"
  shows "(0 < L
          \<and> (\<forall>j v. j < nat L \<longrightarrow>
                fst (fetch_html ev (nth_url ev site j) 3 (3 / 2) v) = Inr (site (nth_url ev site j)))
          \<and> (\<forall>j. int j + 1 < L \<longrightarrow> has_next (next_of ev site j) \<and> resolves ev site j)
          \<and> nat L \<le> fuel \<longrightarrow>
            (\<exists>w' as. scrape fuel ev (Some L) delay csv sq w = Some (Inr ReachedLimit, L, w')
                \<and> length as = nat L \<and> (\<forall>a \<in> set as. 0 < a \<and> a \<le> 3)
                \<and> gets w' = gets w @ requests_of ev site (zip as [0..<nat L])
                \<and> csv_files w' = csv_files (persist_pages csv sq (map (page_items ev site) [0..<nat L])
                                              (snd (if_path sq init_sqlite w)))
                \<and> stores w' = stores (persist_pages csv sq (map (page_items ev site) [0..<nat L])
                                        (snd (if_path sq init_sqlite w)))))
       \<and> ((lp = None \<or> lp = Some 0) \<and> 0 < N
          \<and> (\<forall>j v. j < N \<longrightarrow>
                fst (fetch_html ev (nth_url ev site j) 3 (3 / 2) v) = Inr (site (nth_url ev site j)))
          \<and> (\<forall>j. Suc j < N \<longrightarrow> has_next (next_of ev site j) \<and> resolves ev site j)
          \<and> \<not> has_next (next_of ev site (N - 1)) \<and> N \<le> fuel \<longrightarrow>
            (\<exists>w' as. scrape fuel ev lp delay csv sq w = Some (Inr NoNextLink, int N, w')
                \<and> length as = N \<and> (\<forall>a \<in> set as. 0 < a \<and> a \<le> 3)
                \<and> gets w' = gets w @ requests_of ev site (zip as [0..<N])
                \<and> csv_files w' = csv_files (persist_pages csv sq (map (page_items ev site) [0..<N])
                                              (snd (if_path sq init_sqlite w)))
                \<and> stores w' = stores (persist_pages csv sq (map (page_items ev site) [0..<N])
                                        (snd (if_path sq init_sqlite w)))))"
proof -
  from init_sqlite_ok [OF assms(3)] obtain w1
    where w1: "if_path sq init_sqlite w = (Inr (), w1)" "gets w1 = gets w"
      "csv_files w1 = csv_files w" "sqlite_inited sq w1" by blast
  have w1': "snd (if_path sq init_sqlite w) = w1" using w1(1) by simp
  have c1: "csv_ready csv w1" using assms(2) w1(3) csv_ready_cong [of w1 w csv] by simp
  have sc: "scrape fuel ev l delay csv sq w
            = scrape_loop fuel ev l delay csv sq (nth_url ev site 0) (int 0) w1" for l
    using w1(1) by (simp add: scrape_def)
  have A: "\<exists>w' as. scrape fuel ev (Some L) delay csv sq w = Some (Inr ReachedLimit, L, w')
                \<and> length as = nat L \<and> (\<forall>a \<in> set as. 0 < a \<and> a \<le> 3)
                \<and> gets w' = gets w @ requests_of ev site (zip as [0..<nat L])
                \<and> csv_files w' = csv_files (persist_pages csv sq (map (page_items ev site) [0..<nat L])
                                              (snd (if_path sq init_sqlite w)))
                \<and> stores w' = stores (persist_pages csv sq (map (page_items ev site) [0..<nat L])
                                        (snd (if_path sq init_sqlite w)))"
    if "0 < L"
      "\<forall>j v. j < nat L \<longrightarrow>
         fst (fetch_html ev (nth_url ev site j) 3 (3 / 2) v) = Inr (site (nth_url ev site j))"
      "\<forall>j. int j + 1 < L \<longrightarrow> has_next (next_of ev site j) \<and> resolves ev site j" "nat L \<le> fuel"
  proof -
    define m where "m = nat L - 1"
    have mL: "int m + 1 = L" "Suc m = nat L" using that(1) by (auto simp: m_def)
    have h0: "\<forall>j v. 0 \<le> j \<and> j \<le> m \<longrightarrow>
         fst (fetch_html ev (nth_url ev site j) 3 (3 / 2) v) = Inr (site (nth_url ev site j))"
      using that(2) mL by auto
    have h1: "\<forall>j. 0 \<le> j \<and> j < m \<longrightarrow>
                \<not> limit_reached (Some L) (int j + 1) \<and> has_next (next_of ev site j)
                \<and> resolves ev site j"
      using that(3) mL by (auto simp: limit_reached_def)
    have h2: "limit_reached (Some L) (int m + 1)"
      using that(1) mL by (simp add: limit_reached_def)
    then have h2': "limit_reached (Some L) (int m + 1) \<or> \<not> has_next (next_of ev site m)" ..
    have h3: "m - 0 < fuel" using that(4) mL by simp
    from scrape_loop_run [OF assms(1) le0 h0 h1 h2' c1 w1(4) h3, of delay] obtain w' as
      where "scrape_loop fuel ev (Some L) delay csv sq (nth_url ev site 0) (int 0) w1
              = Some (Inr (if limit_reached (Some L) (int m + 1) then ReachedLimit else NoNextLink),
                      int m + 1, w')"
        "length as = Suc m - 0" "\<forall>a \<in> set as. 0 < a \<and> a \<le> 3"
        "gets w' = gets w1 @ requests_of ev site (zip as [0..<Suc m])"
        "csv_files w' = csv_files (persist_pages csv sq (map (page_items ev site) [0..<Suc m]) w1)"
        "stores w' = stores (persist_pages csv sq (map (page_items ev site) [0..<Suc m]) w1)"
      by blast
    then show ?thesis unfolding sc w1' using h2 mL w1(2)
      by (intro exI [of _ w'] exI [of _ as]) simp
  qed
  have B: "\<exists>w' as. scrape fuel ev lp delay csv sq w = Some (Inr NoNextLink, int N, w')
                \<and> length as = N \<and> (\<forall>a \<in> set as. 0 < a \<and> a \<le> 3)
                \<and> gets w' = gets w @ requests_of ev site (zip as [0..<N])
                \<and> csv_files w' = csv_files (persist_pages csv sq (map (page_items ev site) [0..<N])
                                              (snd (if_path sq init_sqlite w)))
                \<and> stores w' = stores (persist_pages csv sq (map (page_items ev site) [0..<N])
                                        (snd (if_path sq init_sqlite w)))"
    if "lp = None \<or> lp = Some 0" "0 < N"
      "\<forall>j v. j < N \<longrightarrow>
         fst (fetch_html ev (nth_url ev site j) 3 (3 / 2) v) = Inr (site (nth_url ev site j))"
      "\<forall>j. Suc j < N \<longrightarrow> has_next (next_of ev site j) \<and> resolves ev site j"
      "\<not> has_next (next_of ev site (N - 1))" "N \<le> fuel"
  proof -
    define m where "m = N - 1"
    have mN: "Suc m = N" using that(2) by (simp add: m_def)
    have nl: "\<not> limit_reached lp x" for x using that(1) by (auto simp: limit_reached_def)
    have h0: "\<forall>j v. 0 \<le> j \<and> j \<le> m \<longrightarrow>
         fst (fetch_html ev (nth_url ev site j) 3 (3 / 2) v) = Inr (site (nth_url ev site j))"
      using that(3) mN by auto
    have h1: "\<forall>j. 0 \<le> j \<and> j < m \<longrightarrow>
                \<not> limit_reached lp (int j + 1) \<and> has_next (next_of ev site j) \<and> resolves ev site j"
      using that(4) mN nl by auto
    have h2': "limit_reached lp (int m + 1) \<or> \<not> has_next (next_of ev site m)"
      using that(5) by (simp add: m_def)
    have h3: "m - 0 < fuel" using that(6) mN by simp
    from scrape_loop_run [OF assms(1) le0 h0 h1 h2' c1 w1(4) h3, of delay] obtain w' as
      where "scrape_loop fuel ev lp delay csv sq (nth_url ev site 0) (int 0) w1
              = Some (Inr (if limit_reached lp (int m + 1) then ReachedLimit else NoNextLink),
                      int m + 1, w')"
        "length as = Suc m - 0" "\<forall>a \<in> set as. 0 < a \<and> a \<le> 3"
        "gets w' = gets w1 @ requests_of ev site (zip as [0..<Suc m])"
        "csv_files w' = csv_files (persist_pages csv sq (map (page_items ev site) [0..<Suc m]) w1)"
        "stores w' = stores (persist_pages csv sq (map (page_items ev site) [0..<Suc m]) w1)"
      by blast
    then show ?thesis unfolding sc w1' using nl mN w1(2)
      by (intro exI [of _ w'] exI [of _ as]) auto
  qed
  show ?thesis using A B by blast
qed

theorem scrape_stops_at_limit_or_last_page_witness:
  "(\<forall>n. \<not> sleep_interrupt endless_env n)
   \<and> csv_ready (Some ''data.csv'') empty_world
   \<and> sqlite_ready (Some ''data.db'') empty_world
   \<and> (\<forall>u v. fst (fetch_html endless_env u 3 (3 / 2) v) = Inr (endless_site u))
   \<and> has_next (next_of endless_env endless_site 0) \<and> resolves endless_env endless_site 0
   \<and> has_next (next_of endless_env endless_site 1) \<and> resolves endless_env endless_site 1
   \<and> map_option fst (scrape 3 endless_env (Some 3) 1 (Some ''data.csv'') (Some ''data.db'') empty_world)
       = Some (Inr ReachedLimit)
   \<and> map_option (fst \<circ> snd)
         (scrape 3 endless_env (Some 3) 1 (Some ''data.csv'') (Some ''data.db'') empty_world) = Some 3
   \<and> map_option (gets \<circ> snd \<circ> snd)
         (scrape 3 endless_env (Some 3) 1 (Some ''data.csv'') (Some ''data.db'') empty_world)
       = Some [BASE_URL, BASE_URL @ ''/page/2/'', BASE_URL @ ''/page/2/'']
   \<and> (\<forall>n. \<not> sleep_interrupt hiccup_env n)
   \<and> transport hiccup_env 0 BASE_URL = Inl (RequestException ''timeout'')
   \<and> (\<forall>u v. fst (fetch_html hiccup_env u 3 (3 / 2) v) = Inr (two_page_site u))
   \<and> has_next (next_of hiccup_env two_page_site 0) \<and> resolves hiccup_env two_page_site 0
   \<and> \<not> has_next (next_of hiccup_env two_page_site 1)
   \<and> map_option fst (scrape 2 hiccup_env (Some 0) 1 (Some ''data.csv'') (Some ''data.db'') empty_world)
       = Some (Inr NoNextLink)
   \<and> map_option (fst \<circ> snd)
         (scrape 2 hiccup_env (Some 0) 1 (Some ''data.csv'') (Some ''data.db'') empty_world) = Some 2
   \<and> map_option (gets \<circ> snd \<circ> snd)
         (scrape 2 hiccup_env (Some 0) 1 (Some ''data.csv'') (Some ''data.db'') empty_world)
       = Some [BASE_URL, BASE_URL, BASE_URL @ ''/page/2/'']
   \<and> map_option ((\<lambda>w. csv_lines w ''data.csv'') \<circ> snd \<circ> snd)
         (scrape 2 hiccup_env (Some 0) 1 (Some ''data.csv'') (Some ''data.db'') empty_world)
       = Some [HeaderLine [''quote'', ''author'', ''tags''],
               DataLine [''To be'', ''W. S.'', ''life, stage''],
               DataLine [''I think'', [], []],
               DataLine [''I think'', [], []]]
   \<and> map_option (store_at ''data.db'' \<circ> snd \<circ> snd)
         (scrape 2 hiccup_env (Some 0) 1 (Some ''data.csv'') (Some ''data.db'') empty_world)
       = Some (Database [(''quotes'',
            \<lparr>columns = quotes_columns,
             table_rows = [[IntV 1, TextV ''To be'', TextV ''W. S.'', TextV ''life, stage''],
                           [IntV 2, TextV ''I think'', TextV [], TextV []],
                           [IntV 3, TextV ''I think'', TextV [], TextV []]],
             last_rowid = 3\<rparr>)])"
proof -
  have e1: "\<forall>n u. transport endless_env n u = Inr (endless_site u)"
    by (simp add: endless_env_def fixture_env_def transport_def raise_for_status_def endless_site_def)
  have ef: "\<forall>u v. fst (fetch_html endless_env u 3 (3 / 2) v) = Inr (endless_site u)"
    using fetch_html_static [OF e1] by simp
  have e2: "\<forall>n. \<not> sleep_interrupt endless_env n" by (simp add: endless_env_def fixture_env_def)
  have t2: "\<forall>n. \<not> sleep_interrupt hiccup_env n" by (simp add: hiccup_env_def fixture_env_def)
  have t0: "transport hiccup_env 0 BASE_URL = Inl (RequestException ''timeout'')"
    by (simp add: hiccup_env_def fixture_env_def transport_def)
  have tf: "\<forall>u v. fst (fetch_html hiccup_env u 3 (3 / 2) v) = Inr (two_page_site u)"
  proof (intro allI)
    fix u v
    show "fst (fetch_html hiccup_env u 3 (3 / 2) v) = Inr (two_page_site u)"
      by (cases "gets v")
         (simp_all add: fetch_html_def upto.simps try_get_def transport_def hiccup_env_def
            fixture_env_def raise_for_status_def uniform_def time_sleep_def two_page_site_def)
  qed
  have c: "csv_ready (Some ''data.csv'') empty_world" by (simp add: csv_ready_def empty_world_def)
  have s: "sqlite_ready (Some ''data.db'') empty_world" by (simp add: sqlite_ready_def empty_world_def)
  have h0: "has_next (next_of endless_env endless_site 0)" by code_simp
  have h1: "has_next (next_of endless_env endless_site 1)" by code_simp
  have r0: "resolves endless_env endless_site 0" by code_simp
  have r1: "resolves endless_env endless_site 1" by code_simp
  have k0: "has_next (next_of hiccup_env two_page_site 0)" by code_simp
  have q0: "resolves hiccup_env two_page_site 0" by code_simp
  have k1: "\<not> has_next (next_of hiccup_env two_page_site 1)" by code_simp
  have hA: "\<forall>j. int j + 1 < 3 \<longrightarrow>
              has_next (next_of endless_env endless_site j) \<and> resolves endless_env endless_site j"
  proof (intro allI impI)
    fix j :: nat assume "int j + 1 < 3"
    then have "j = 0 \<or> j = 1" by auto
    then show "has_next (next_of endless_env endless_site j) \<and> resolves endless_env endless_site j"
      using h0 h1 r0 r1 by auto
  qed
  have fA: "\<forall>j v. j < nat 3 \<longrightarrow>
       fst (fetch_html endless_env (nth_url endless_env endless_site j) 3 (3 / 2) v)
         = Inr (endless_site (nth_url endless_env endless_site j))"
    using ef by simp
  have hB: "\<forall>j. Suc j < 2 \<longrightarrow>
              has_next (next_of hiccup_env two_page_site j) \<and> resolves hiccup_env two_page_site j"
    using k0 q0 by auto
  have fB: "\<forall>j v. j < 2 \<longrightarrow>
       fst (fetch_html hiccup_env (nth_url hiccup_env two_page_site j) 3 (3 / 2) v)
         = Inr (two_page_site (nth_url hiccup_env two_page_site j))"
    using tf by simp
  have k1': "\<not> has_next (next_of hiccup_env two_page_site (2 - 1))" using k1 by simp
  have pA: "0 < (3::int)
          \<and> (\<forall>j v. j < nat 3 \<longrightarrow>
                fst (fetch_html endless_env (nth_url endless_env endless_site j) 3 (3 / 2) v)
                  = Inr (endless_site (nth_url endless_env endless_site j)))
          \<and> (\<forall>j. int j + 1 < 3 \<longrightarrow>
                has_next (next_of endless_env endless_site j) \<and> resolves endless_env endless_site j)
          \<and> nat 3 \<le> (3::nat)"
    using fA hA by simp
  from scrape_stops_at_limit_or_last_page [OF e2 c s, where L = 3 and fuel = 3 and delay = 1
        and site = endless_site and lp = None and N = 0, THEN conjunct1, THEN mp, OF pA]
  obtain w' where A: "scrape 3 endless_env (Some 3) 1 (Some ''data.csv'') (Some ''data.db'') empty_world
                       = Some (Inr ReachedLimit, 3, w')"
    by (elim exE conjE)
  have pB: "(Some (0::int) = None \<or> Some (0::int) = Some 0) \<and> 0 < (2::nat)
          \<and> (\<forall>j v. j < 2 \<longrightarrow>
                fst (fetch_html hiccup_env (nth_url hiccup_env two_page_site j) 3 (3 / 2) v)
                  = Inr (two_page_site (nth_url hiccup_env two_page_site j)))
          \<and> (\<forall>j. Suc j < 2 \<longrightarrow>
                has_next (next_of hiccup_env two_page_site j) \<and> resolves hiccup_env two_page_site j)
          \<and> \<not> has_next (next_of hiccup_env two_page_site (2 - 1)) \<and> (2::nat) \<le> 2"
    using fB hB k1' by simp
  from scrape_stops_at_limit_or_last_page [OF t2 c s, where lp = "Some 0" and N = 2 and fuel = 2
        and delay = 1 and site = two_page_site and L = 0, THEN conjunct2, THEN mp, OF pB]
  obtain w'' where B: "scrape 2 hiccup_env (Some 0) 1 (Some ''data.csv'') (Some ''data.db'') empty_world
                       = Some (Inr NoNextLink, int 2, w'')"
    by (elim exE conjE)
  have gA: "map_option (gets \<circ> snd \<circ> snd)
         (scrape 3 endless_env (Some 3) 1 (Some ''data.csv'') (Some ''data.db'') empty_world)
       = Some [BASE_URL, BASE_URL @ ''/page/2/'', BASE_URL @ ''/page/2/'']" by code_simp
  have gB: "map_option (gets \<circ> snd \<circ> snd)
         (scrape 2 hiccup_env (Some 0) 1 (Some ''data.csv'') (Some ''data.db'') empty_world)
       = Some [BASE_URL, BASE_URL, BASE_URL @ ''/page/2/'']" by code_simp
  have cB: "map_option ((\<lambda>w. csv_lines w ''data.csv'') \<circ> snd \<circ> snd)
         (scrape 2 hiccup_env (Some 0) 1 (Some ''data.csv'') (Some ''data.db'') empty_world)
       = Some [HeaderLine [''quote'', ''author'', ''tags''],
               DataLine [''To be'', ''W. S.'', ''life, stage''],
               DataLine [''I think'', [], []],
               DataLine [''I think'', [], []]]" by code_simp
  have sB: "map_option (store_at ''data.db'' \<circ> snd \<circ> snd)
         (scrape 2 hiccup_env (Some 0) 1 (Some ''data.csv'') (Some ''data.db'') empty_world)
       = Some (Database [(''quotes'',
            \<lparr>columns = quotes_columns,
             table_rows = [[IntV 1, TextV ''To be'', TextV ''W. S.'', TextV ''life, stage''],
                           [IntV 2, TextV ''I think'', TextV [], TextV []],
                           [IntV 3, TextV ''I think'', TextV [], TextV []]],
             last_rowid = 3\<rparr>)])" by code_simp
  have rA: "map_option fst (scrape 3 endless_env (Some 3) 1 (Some ''data.csv'') (Some ''data.db'') empty_world)
       = Some (Inr ReachedLimit)"
    "map_option (fst \<circ> snd)
         (scrape 3 endless_env (Some 3) 1 (Some ''data.csv'') (Some ''data.db'') empty_world) = Some 3"
    unfolding A by simp_all
  have rB: "map_option fst (scrape 2 hiccup_env (Some 0) 1 (Some ''data.csv'') (Some ''data.db'') empty_world)
       = Some (Inr NoNextLink)"
    "map_option (fst \<circ> snd)
         (scrape 2 hiccup_env (Some 0) 1 (Some ''data.csv'') (Some ''data.db'') empty_world) = Some 2"
    unfolding B by simp_all
  show ?thesis
    using e2 c s ef h0 r0 h1 r1 rA gA t2 t0 tf k0 q0 k1 rB gB cB sB by (simp only: simp_thms)
qed

text \<open>
  The claim as stated fails. The page of the first site has a next link, an \<^verbatim>\<open>a\<close>
  element below \<^verbatim>\<open>li.next\<close> whose \<^verbatim>\<open>href\<close> is the empty string, and the server answers
  every request; with the limit 3 the run stops after one pass, from the no-next-link
  branch, with a single request issued. The page of the second site has a next link
  whose \<^verbatim>\<open>href\<close> is \<^verbatim>\<open>//[\<close>; \<^verbatim>\<open>urljoin\<close> raises on it, and with the limit 3 the run is
  left by that \<^verbatim>\<open>ValueError\<close> after one pass.
\<close>

theorem scrape_empty_href_counterexample:
  "transport self_link_env 0 BASE_URL = Inr ''self''
   \<and> soup_select_one [(''li'', Some ''next'')] (''a'', None) (lxml self_link_env ''self'')
       = Some ([next_li [], Tag ''ul'' [''pager''] [] [next_li []],
                Tag ''body'' [] [] [full_quote, Tag ''ul'' [''pager''] [] [next_li []]],
                Tag ''html'' [] [] [Tag ''body'' [] [] [full_quote, Tag ''ul'' [''pager''] [] [next_li []]]]],
               Tag ''a'' [] [(''href'', [])] [NavigableString ''Next''])
   \<and> snd (parse_quotes self_link_env ''self'') = Some []
   \<and> map_option fst (scrape 3 self_link_env (Some 3) 1 None None empty_world) = Some (Inr NoNextLink)
   \<and> map_option (fst \<circ> snd) (scrape 3 self_link_env (Some 3) 1 None None empty_world) = Some 1
   \<and> map_option (gets \<circ> snd \<circ> snd) (scrape 3 self_link_env (Some 3) 1 None None empty_world)
       = Some [BASE_URL]
   \<and> transport bad_link_env 0 BASE_URL = Inr ''bad''
   \<and> snd (parse_quotes bad_link_env ''bad'') = Some ''//[''
   \<and> urljoin bad_link_env BASE_URL ''//['' = Inl (ValueError ''Invalid IPv6 URL'')
   \<and> map_option fst (scrape 3 bad_link_env (Some 3) 1 None None empty_world)
       = Some (Inl (ValueError ''Invalid IPv6 URL''))
   \<and> map_option (fst \<circ> snd) (scrape 3 bad_link_env (Some 3) 1 None None empty_world) = Some 1
   \<and> map_option (gets \<circ> snd \<circ> snd) (scrape 3 bad_link_env (Some 3) 1 None None empty_world)
       = Some [BASE_URL]"
  by code_simp

end
